theory Spec2Isabelle
  imports Main "HOL-Library.Sublist"
begin

section \<open>Strings\<close>

text \<open>
  A Python \<open>str\<close> is a sequence of Unicode code points, and \<open>len\<close>, slicing and the
  regular expressions of the program count code points. A string is therefore a list of
  code points (natural numbers); \<open>str\<close> turns an ASCII literal into such a list.
\<close>

type_synonym cp = nat
type_synonym pystr = "cp list"

definition str :: "string \<Rightarrow> pystr" where
  "str = map of_char"

text \<open>
  \<open>str.isspace\<close> of CPython, which is also what \<open>str.strip()\<close> removes and what
  \<open>\s\<close> matches in a \<open>str\<close> pattern: the characters of bidirectional class WS, B or S
  or of category Zs.
\<close>

definition isspace :: "cp \<Rightarrow> bool" where
  "isspace c \<longleftrightarrow>
     (9 \<le> c \<and> c \<le> 13) \<or> (28 \<le> c \<and> c \<le> 32) \<or> c = 133 \<or> c = 160 \<or> c = 5760 \<or>
     (8192 \<le> c \<and> c \<le> 8202) \<or> c = 8232 \<or> c = 8233 \<or> c = 8239 \<or> c = 8287 \<or>
     c = 12288"

text \<open>\<open>s.strip()\<close>\<close>

definition strip :: "pystr \<Rightarrow> pystr" where
  "strip s = rev (dropWhile isspace (rev (dropWhile isspace s)))"

text \<open>\<open>s.startswith(p)\<close>\<close>

definition startswith :: "pystr \<Rightarrow> pystr \<Rightarrow> bool" where
  "startswith s p \<longleftrightarrow> take (length p) s = p"

text \<open>\<open>sep.join(xs)\<close>\<close>

fun join :: "pystr \<Rightarrow> pystr list \<Rightarrow> pystr" where
  "join sep [] = []"
| "join sep [x] = x"
| "join sep (x # y # ys) = x @ sep @ join sep (y # ys)"

text \<open>\<open>needle in hay\<close>\<close>

fun contains :: "pystr \<Rightarrow> pystr \<Rightarrow> bool" where
  "contains [] needle = (needle = [])"
| "contains (c # cs) needle = (startswith (c # cs) needle \<or> contains cs needle)"

definition nl :: pystr where
  "nl = [10]"

text \<open>\<open>os.path.join(a, b)\<close> of \<open>posixpath\<close>, for two components.\<close>

definition os_path_join :: "pystr \<Rightarrow> pystr \<Rightarrow> pystr" where
  "os_path_join a b =
     (if startswith b (str ''/'') then b
      else if a = [] \<or> last a = of_char CHR ''/'' then a @ b
      else a @ str ''/'' @ b)"

section \<open>The environment\<close>

subsection \<open>Markup\<close>

text \<open>
  A node of the parsed page: character data, a CDATA section, a comment or another string
  that is never text (declaration, doctype, processing instruction), or a tag with its
  identity (the program removes tags by identity), name, classes and contents.
\<close>

datatype node =
  Text pystr | CData pystr | Comment pystr | Elem nat pystr "pystr list" "node list"

text \<open>The identities of all tags of a tree, in document order.\<close>

fun idents :: "node \<Rightarrow> nat list" where
  "idents (Text s) = []"
| "idents (CData s) = []"
| "idents (Comment s) = []"
| "idents (Elem i name classes kids) = i # concat (map idents kids)"

text \<open>
  What the selectors of the program find on a page. A link is an \<open>a\<close> tag that its
  selector requires to have an \<open>href\<close>; the text is its \<open>get_text(strip=True)\<close>.
\<close>

record link =
  link_text :: pystr
  link_href :: pystr

text \<open>
  A tag that a selector has found, for the calls that change it and read its text: its
  contents, and whether the tag itself stands inside a \<open>script\<close>, \<open>style\<close>, \<open>template\<close>,
  \<open>rt\<close> or \<open>rp\<close> tag. The parser gives the character data inside these five tags
  classes of their own (\<open>Script\<close>, \<open>Stylesheet\<close>, \<open>TemplateString\<close>, \<open>RubyTextString\<close>,
  \<open>RubyParenthesisString\<close>), and \<open>get_text\<close> on another tag leaves it out.
\<close>

record block =
  in_container :: bool
  contents :: "node list"

text \<open>
  \<open>post_wrap\<close>: the \<open>div.post_wrap\<close> around a post, with the text of its
  \<open>h3.author\<close> and \<open>p.posted_info\<close> and the \<open>div.signature\<close> that line 109 finds in
  it, each \<open>None\<close> when the tag is absent.
\<close>

record post_wrap =
  author :: "pystr option"
  posted_info :: "pystr option"
  signature :: "block option"

text \<open>A \<open>div.post.entry-content\<close> and its \<open>find_parent\<close> result.\<close>

record post_div =
  content :: block
  wrap :: "post_wrap option"

text \<open>A topic row: its \<open>td.col_f_topic a[href*="showtopic="]\<close> and the text of its
  \<open>td.col_f_lastact\<close>.\<close>

record topic_row =
  topic_link :: "link option"
  lastact :: "pystr option"

text \<open>A row of the index: its \<open>td h4 a[href*="showforum="]\<close> and the forum links of the
  \<open>span.desc\<close> of its cell (\<open>None\<close> without such a span).\<close>

record forum_row =
  forum_link :: "link option"
  desc_links :: "link list option"

text \<open>
  A parsed page. \<open>next_link\<close> is \<open>select_one('a[rel="next"]')\<close>: \<open>None\<close> without such a
  tag, \<open>Some None\<close> for a tag without \<open>href\<close>, \<open>Some (Some h)\<close> for one with \<open>href\<close>
  \<open>h\<close>. \<open>category_tables\<close> are the rows of each \<open>table.ipb_table\<close>.
\<close>

record soup =
  post_divs :: "post_div list"
  next_link :: "pystr option option"
  topic_rows :: "topic_row list"
  category_tables :: "forum_row list list"

subsection \<open>Libraries, network and file system\<close>

datatype response = Ok soup | ConnectionError | HTTPError

datatype exn = KeyError | ValueError

text \<open>
  What writing a file does: the file is written, an \<open>OSError\<close> is raised, or another
  exception is raised (\<open>ValueError\<close> for a path with a NUL character or a text that
  cannot be encoded). In each case the file system may have changed: directories may
  have been created, and the file opened, before the exception.
\<close>

datatype 'f write_result = Written 'f | OSError 'f | Other exn 'f

text \<open>
  The program calls libraries whose code is not part of it. What they compute is a
  parameter of the model:
  \<^item> \<open>urljoin\<close> is \<open>urllib.parse.urljoin\<close>;
  \<^item> \<open>is_digit\<close> is the class \<open>\d\<close> of \<open>re\<close> (the Unicode decimal digits);
  \<^item> \<open>search_date\<close> is \<open>re.search(r'(\d{1,2}\s\w+\s\d{4})', s)\<close>, giving group 1;
  \<^item> \<open>http_get\<close> is \<open>requests.get\<close> followed by \<open>raise_for_status\<close> and the parser,
    on a network in state \<open>'n\<close>; both failures are a \<open>RequestException\<close>;
  \<^item> \<open>os_write\<close> is \<open>os.makedirs\<close> of the directory followed by opening and writing the
    file, on a file system in state \<open>'f\<close>.
  What the program prints is not modelled.
\<close>

record ('n, 'f) env =
  urljoin :: "pystr \<Rightarrow> pystr \<Rightarrow> pystr"
  is_digit :: "cp \<Rightarrow> bool"
  search_date :: "pystr \<Rightarrow> pystr option"
  http_get :: "'n \<Rightarrow> pystr \<Rightarrow> response \<times> 'n"
  os_write :: "'f \<Rightarrow> pystr \<Rightarrow> pystr \<Rightarrow> 'f write_result"

datatype event = Sleep nat | Get pystr

text \<open>
  The state the program runs in: the network, the file system, the sleeps and requests
  made so far, and the calls of \<open>scrape_topic_listing\<close> made so far (URL and path).
\<close>

record ('n, 'f) world =
  net :: 'n
  fs :: 'f
  trace :: "event list"
  crawls :: "(pystr \<times> pystr) list"

text \<open>
  How a call ends: it returns a value, an exception escapes it, or it is still running
  when the bound on the iterations of its \<open>while\<close> loops is used up.
\<close>

datatype ('a, 'w) outcome = Done 'a 'w | Raised exn 'w | OutOfFuel

section \<open>Helper functions\<close>

subsection \<open>resolve_url\<close>

definition resolve_url :: "('n, 'f) env \<Rightarrow> pystr \<Rightarrow> pystr \<Rightarrow> pystr" where
  "resolve_url E base href =
     (if startswith href (str ''http'') then href
      else if startswith href (str ''/web/'') then str ''https://web.archive.org'' @ href
      else urljoin E base href)"

subsection \<open>make_soup\<close>

definition REQUEST_DELAY_SECONDS :: nat where
  "REQUEST_DELAY_SECONDS = 2"

definition retries :: nat where
  "retries = 3"

text \<open>
  The \<open>for attempt in range(retries)\<close> loop, over the attempts still to make and with
  the current \<open>delay\<close>. The \<open>return None\<close> after the loop is the first equation.
\<close>

fun attempts ::
  "('n, 'f) env \<Rightarrow> pystr \<Rightarrow> nat list \<Rightarrow> nat \<Rightarrow> ('n, 'f) world \<Rightarrow> soup option \<times> ('n, 'f) world"
where
  "attempts E url [] delay w = (None, w)"
| "attempts E url (attempt # rest) delay w =
     (let w1 = w\<lparr>trace := trace w @ [Sleep REQUEST_DELAY_SECONDS, Get url]\<rparr>;
          (r, n') = http_get E (net w1) url;
          w2 = w1\<lparr>net := n'\<rparr>
      in case r of
           Ok page \<Rightarrow> (Some page, w2)
         | _ \<Rightarrow>
             if attempt < retries - 1
             then attempts E url rest (delay * 2) (w2\<lparr>trace := trace w2 @ [Sleep delay]\<rparr>)
             else (None, w2))"

definition make_soup :: "('n, 'f) env \<Rightarrow> pystr \<Rightarrow> ('n, 'f) world \<Rightarrow> soup option \<times> ('n, 'f) world" where
  "make_soup E url w = attempts E url [0..<retries] 5 w"

subsection \<open>sanitize_filename\<close>

text \<open>The characters of the class \<open>[\\/*?:"<>|]\<close>.\<close>

definition invalid_chars :: "cp list" where
  "invalid_chars = map of_char
     [CHR 0x5C, CHR ''/'', CHR ''*'', CHR ''?'', CHR '':'', CHR 0x22, CHR ''<'', CHR ''>'', CHR ''|'']"

definition underscore :: cp where
  "underscore = of_char CHR ''_''"

text \<open>\<open>re.sub(r'[\\/*?:"<>|]', "_", name)\<close>: every character of the class becomes \<open>_\<close>.\<close>

definition sub_invalid :: "pystr \<Rightarrow> pystr" where
  "sub_invalid name = map (\<lambda>c. if c \<in> set invalid_chars then underscore else c) name"

text \<open>The class \<open>[\s_]\<close>.\<close>

definition space_or_underscore :: "cp \<Rightarrow> bool" where
  "space_or_underscore c \<longleftrightarrow> isspace c \<or> c = underscore"

text \<open>
  \<open>re.sub(r'[\s_]+', '_', name)\<close>: scanning from the left, every maximal run of
  characters of the class is replaced by one \<open>_\<close>.
\<close>

function sub_runs :: "pystr \<Rightarrow> pystr" where
  "sub_runs [] = []"
| "sub_runs (c # cs) =
     (if space_or_underscore c then underscore # sub_runs (dropWhile space_or_underscore cs)
      else c # sub_runs cs)"
  by pat_completeness auto
termination
  by (relation "measure length") (auto simp: length_dropWhile_le less_Suc_eq_le)

definition sanitize_filename :: "pystr \<Rightarrow> pystr" where
  "sanitize_filename name = take 100 (sub_runs (sub_invalid (strip name)))"

subsection \<open>write_to_file\<close>

text \<open>
  An \<open>OSError\<close> is caught and reported, and the call returns as it does after writing
  the file. Any other exception escapes, with the world it leaves.
\<close>

definition write_to_file ::
  "('n, 'f) env \<Rightarrow> pystr \<Rightarrow> pystr \<Rightarrow> ('n, 'f) world
    \<Rightarrow> (exn \<times> ('n, 'f) world) + ('n, 'f) world"
where
  "write_to_file E filepath text w =
     (case os_write E (fs w) filepath text of
        Written f \<Rightarrow> Inr (w\<lparr>fs := f\<rparr>)
      | OSError f \<Rightarrow> Inr (w\<lparr>fs := f\<rparr>)
      | Other e f \<Rightarrow> Inl (e, w\<lparr>fs := f\<rparr>))"

section \<open>Posts\<close>

subsection \<open>The posted date\<close>

definition Posted :: pystr where
  "Posted = str ''Posted ''"

definition hash :: cp where
  "hash = of_char CHR ''#''"

text \<open>
  \<open>re.sub(r'Posted |#\d+', '', s)\<close>: scanning from the left, every match of
  \<open>Posted \<close> and every match of \<open>#\<close> with the longest run of digits after it is removed.
\<close>

function sub_posted :: "(cp \<Rightarrow> bool) \<Rightarrow> pystr \<Rightarrow> pystr" where
  "sub_posted digit [] = []"
| "sub_posted digit (c # cs) =
     (if startswith (c # cs) Posted then sub_posted digit (drop (length Posted) (c # cs))
      else if c = hash \<and> cs \<noteq> [] \<and> digit (hd cs) then sub_posted digit (dropWhile digit cs)
      else c # sub_posted digit cs)"
  by pat_completeness auto
termination
  by (relation "measure (\<lambda>(digit, s). length s)")
    (auto simp: Posted_def str_def length_dropWhile_le less_Suc_eq_le)

definition clean_date :: "('n, 'f) env \<Rightarrow> pystr \<Rightarrow> pystr" where
  "clean_date E post_date = strip (sub_posted (is_digit E) post_date)"

subsection \<open>The text of a post\<close>

text \<open>The selector \<open>div.blockquote, pre.prettyprint, img\<close> on one tag.\<close>

definition is_block :: "pystr \<Rightarrow> pystr list \<Rightarrow> bool" where
  "is_block name classes \<longleftrightarrow>
     name = str ''div'' \<and> str ''blockquote'' \<in> set classes \<or>
     name = str ''pre'' \<and> str ''prettyprint'' \<in> set classes \<or>
     name = str ''img''"

definition is_img :: "pystr \<Rightarrow> pystr list \<Rightarrow> bool" where
  "is_img name classes \<longleftrightarrow> name = str ''img''"

text \<open>
  \<open>select\<close> and \<open>find_all\<close>: the tags that match, the tag itself included, in
  document order; \<open>select_in\<close> is the search below a tag with the given contents.
\<close>

fun matching :: "(pystr \<Rightarrow> pystr list \<Rightarrow> bool) \<Rightarrow> node \<Rightarrow> nat list" where
  "matching sel (Text s) = []"
| "matching sel (CData s) = []"
| "matching sel (Comment s) = []"
| "matching sel (Elem i name classes kids) =
     (if sel name classes then [i] else []) @ concat (map (matching sel) kids)"

definition select_in :: "(pystr \<Rightarrow> pystr list \<Rightarrow> bool) \<Rightarrow> node list \<Rightarrow> nat list" where
  "select_in sel kids = concat (map (matching sel) kids)"

text \<open>
  \<open>block.decompose()\<close> for the tag of identity \<open>i\<close>: the tag leaves the contents of its
  parent. Nothing changes when it is no longer in the tree, which is the case of a tag
  inside one decomposed before it.
\<close>

fun is_tag :: "nat \<Rightarrow> node \<Rightarrow> bool" where
  "is_tag i (Elem j name classes kids) = (i = j)"
| "is_tag i (Text s) = False"
| "is_tag i (CData s) = False"
| "is_tag i (Comment s) = False"

fun remove_tag :: "nat \<Rightarrow> node \<Rightarrow> node" where
  "remove_tag i (Elem j name classes kids) =
     Elem j name classes (map (remove_tag i) (filter (\<lambda>k. \<not> is_tag i k) kids))"
| "remove_tag i (Text s) = Text s"
| "remove_tag i (CData s) = CData s"
| "remove_tag i (Comment s) = Comment s"

definition decompose :: "nat \<Rightarrow> node list \<Rightarrow> node list" where
  "decompose i kids = map (remove_tag i) (filter (\<lambda>k. \<not> is_tag i k) kids)"

text \<open>
  The tags whose character data is not text: \<open>DEFAULT_STRING_CONTAINERS\<close> of the HTML
  tree builders of \<open>bs4\<close>.
\<close>

definition string_containers :: "pystr list" where
  "string_containers = [str ''rt'', str ''rp'', str ''style'', str ''script'', str ''template'']"

text \<open>
  \<open>get_text(sep, strip=True)\<close> of a tag that is not one of the string containers: the
  strings below it whose class is \<open>NavigableString\<close> or \<open>CData\<close>, each stripped, the empty
  ones left out. Character data has the class \<open>NavigableString\<close> unless it is inside a
  string container (\<open>inside\<close>), at any depth; a CDATA section has the class \<open>CData\<close>
  wherever it is.
\<close>

fun all_strings :: "bool \<Rightarrow> node \<Rightarrow> pystr list" where
  "all_strings inside (Text s) = (if inside then [] else [s])"
| "all_strings inside (CData s) = [s]"
| "all_strings inside (Comment s) = []"
| "all_strings inside (Elem i name classes kids) =
     concat (map (all_strings (inside \<or> name \<in> set string_containers)) kids)"

definition get_text_strip :: "pystr \<Rightarrow> block \<Rightarrow> pystr" where
  "get_text_strip sep tag =
     join sep (filter (\<lambda>s. s \<noteq> [])
       (map strip (concat (map (all_strings (in_container tag)) (contents tag)))))"

text \<open>The body of a post: lines 101 to 104 of the source.\<close>

definition post_body :: "block \<Rightarrow> pystr" where
  "post_body post_content_div =
     get_text_strip nl
       (post_content_div\<lparr>contents :=
          fold decompose (select_in is_block (contents post_content_div))
            (contents post_content_div)\<rparr>)"

text \<open>The signature: lines 111 to 113.\<close>

definition signature_text :: "block \<Rightarrow> pystr" where
  "signature_text signature_div =
     strip (get_text_strip nl
       (signature_div\<lparr>contents :=
          fold decompose (select_in is_img (contents signature_div))
            (contents signature_div)\<rparr>))"

text \<open>The body of the \<open>for post_content_div in post_content_divs\<close> loop: what one
  post appends to \<open>all_posts_text\<close>.\<close>

definition post_texts :: "('n, 'f) env \<Rightarrow> post_div \<Rightarrow> pystr list" where
  "post_texts E d =
     (case wrap d of
        None \<Rightarrow> []
      | Some post_wrap \<Rightarrow>
          let username = (case author post_wrap of Some a \<Rightarrow> a | None \<Rightarrow> str ''Unknown User'');
              post_date = clean_date E
                (case posted_info post_wrap of Some p \<Rightarrow> p | None \<Rightarrow> str ''Unknown Date'');
              post_content = post_body (content d);
              signature_content =
                (case signature post_wrap of Some sg \<Rightarrow> signature_text sg | None \<Rightarrow> [])
          in [str ''--- User: '' @ username @ str '' | Date: '' @ post_date @ str '' ---''
                @ nl @ nl @ post_content]
             @ (if signature_content \<noteq> []
                then [nl @ str ''--- Signature ---'' @ nl @ signature_content] else [])
             @ [nl @ replicate 80 (of_char CHR ''='') @ nl])"

definition page_posts :: "('n, 'f) env \<Rightarrow> soup \<Rightarrow> pystr list" where
  "page_posts E page = concat (map (post_texts E) (post_divs page))"

section \<open>Crawling\<close>

text \<open>
  The end of both \<open>while\<close> loops: the next value of \<open>current_page_url\<close>, or the
  \<open>KeyError\<close> of \<open>next_link['href']\<close> on a tag without \<open>href\<close>.
\<close>

definition next_page :: "('n, 'f) env \<Rightarrow> pystr \<Rightarrow> soup \<Rightarrow> exn + pystr option" where
  "next_page E current_page_url page =
     (case next_link page of
        None \<Rightarrow> Inr None
      | Some None \<Rightarrow> Inl KeyError
      | Some (Some href) \<Rightarrow>
          if href \<noteq> [] then Inr (Some (resolve_url E current_page_url href)) else Inr None)"

text \<open>\<open>while current_page_url:\<close> runs on a string that is not empty.\<close>

definition truthy :: "pystr option \<Rightarrow> bool" where
  "truthy u \<longleftrightarrow> (case u of None \<Rightarrow> False | Some s \<Rightarrow> s \<noteq> [])"

subsection \<open>scrape_post_content\<close>

fun post_pages ::
  "nat \<Rightarrow> ('n, 'f) env \<Rightarrow> pystr option \<Rightarrow> pystr list \<Rightarrow> ('n, 'f) world
    \<Rightarrow> (pystr list, ('n, 'f) world) outcome"
where
  "post_pages 0 E current_page_url all_posts_text w = OutOfFuel"
| "post_pages (Suc n) E current_page_url all_posts_text w =
     (if \<not> truthy current_page_url then Done all_posts_text w
      else case make_soup E (the current_page_url) w of
             (None, w1) \<Rightarrow> Done all_posts_text w1
           | (Some page, w1) \<Rightarrow>
               (case next_page E (the current_page_url) page of
                  Inl e \<Rightarrow> Raised e w1
                | Inr nxt \<Rightarrow> post_pages n E nxt (all_posts_text @ page_posts E page) w1))"

definition scrape_post_content ::
  "nat \<Rightarrow> ('n, 'f) env \<Rightarrow> pystr \<Rightarrow> ('n, 'f) world \<Rightarrow> (pystr, ('n, 'f) world) outcome"
where
  "scrape_post_content n E topic_url w =
     (case post_pages n E (Some topic_url) [] w of
        Done all_posts_text w1 \<Rightarrow> Done (join nl all_posts_text) w1
      | Raised e w1 \<Rightarrow> Raised e w1
      | OutOfFuel \<Rightarrow> OutOfFuel)"


subsection \<open>scrape_topic_listing\<close>

text \<open>\<open>match.group(1).replace(" ", "-")\<close>\<close>

definition replace_spaces :: "pystr \<Rightarrow> pystr" where
  "replace_spaces s = map (\<lambda>c. if c = of_char CHR '' '' then of_char CHR ''-'' else c) s"

text \<open>Lines 155 to 160: the date in front of the file name of a topic.\<close>

definition date_prefix :: "('n, 'f) env \<Rightarrow> topic_row \<Rightarrow> pystr" where
  "date_prefix E row =
     (let last_post_date_str = (case lastact row of Some s \<Rightarrow> s | None \<Rightarrow> str ''nodate'')
      in case search_date E last_post_date_str of
           Some m \<Rightarrow> replace_spaces m
         | None \<Rightarrow> str ''unknown_date'')"

text \<open>Lines 166 to 168: the path of the file of a topic.\<close>

definition topic_filepath :: "('n, 'f) env \<Rightarrow> pystr \<Rightarrow> topic_row \<Rightarrow> pystr \<Rightarrow> pystr" where
  "topic_filepath E current_path row topic_title =
     (let sanitized_title = sanitize_filename topic_title;
          filename = date_prefix E row @ str ''-'' @ sanitized_title @ str ''.txt''
      in os_path_join current_path filename)"

text \<open>The \<open>for row in topic_rows\<close> loop.\<close>

fun topic_rows_loop ::
  "nat \<Rightarrow> ('n, 'f) env \<Rightarrow> pystr \<Rightarrow> pystr \<Rightarrow> topic_row list \<Rightarrow> pystr list \<Rightarrow> ('n, 'f) world
    \<Rightarrow> (pystr list, ('n, 'f) world) outcome"
where
  "topic_rows_loop n E current_page_url current_path [] topic_listing w = Done topic_listing w"
| "topic_rows_loop n E current_page_url current_path (row # rows) topic_listing w =
     (case topic_link row of
        None \<Rightarrow> topic_rows_loop n E current_page_url current_path rows topic_listing w
      | Some topic_link_tag \<Rightarrow>
          let topic_title = link_text topic_link_tag;
              topic_url = resolve_url E current_page_url (link_href topic_link_tag)
          in case scrape_post_content n E topic_url w of
               Done post_content w1 \<Rightarrow>
                 if post_content \<noteq> [] then
                   (case write_to_file E (topic_filepath E current_path row topic_title)
                           post_content w1 of
                      Inl (e, w2) \<Rightarrow> Raised e w2
                    | Inr w2 \<Rightarrow>
                        topic_rows_loop n E current_page_url current_path rows
                          (topic_listing @ [topic_title @ str '' | '' @ topic_url]) w2)
                 else topic_rows_loop n E current_page_url current_path rows topic_listing w1
             | Raised e w1 \<Rightarrow> Raised e w1
             | OutOfFuel \<Rightarrow> OutOfFuel)"

text \<open>The \<open>while current_page_url\<close> loop.\<close>

fun topic_pages ::
  "nat \<Rightarrow> ('n, 'f) env \<Rightarrow> pystr option \<Rightarrow> pystr \<Rightarrow> pystr list \<Rightarrow> ('n, 'f) world
    \<Rightarrow> (pystr list, ('n, 'f) world) outcome"
where
  "topic_pages 0 E current_page_url current_path topic_listing w = OutOfFuel"
| "topic_pages (Suc n) E current_page_url current_path topic_listing w =
     (if \<not> truthy current_page_url then Done topic_listing w
      else case make_soup E (the current_page_url) w of
             (None, w1) \<Rightarrow> Done topic_listing w1
           | (Some page, w1) \<Rightarrow>
               (case topic_rows_loop n E (the current_page_url) current_path (topic_rows page)
                       topic_listing w1 of
                  Done topic_listing2 w2 \<Rightarrow>
                    (case next_page E (the current_page_url) page of
                       Inl e \<Rightarrow> Raised e w2
                     | Inr nxt \<Rightarrow> topic_pages n E nxt current_path topic_listing2 w2)
                | Raised e w2 \<Rightarrow> Raised e w2
                | OutOfFuel \<Rightarrow> OutOfFuel))"

definition scrape_topic_listing ::
  "nat \<Rightarrow> ('n, 'f) env \<Rightarrow> pystr \<Rightarrow> pystr \<Rightarrow> ('n, 'f) world \<Rightarrow> (unit, ('n, 'f) world) outcome"
where
  "scrape_topic_listing n E forum_url current_path w =
     (case topic_pages n E (Some forum_url) current_path []
             (w\<lparr>crawls := crawls w @ [(forum_url, current_path)]\<rparr>) of
        Done topic_listing w1 \<Rightarrow>
          (case write_to_file E (os_path_join current_path (str ''listing.txt''))
                  (join nl topic_listing) w1 of
             Inl (e, w2) \<Rightarrow> Raised e w2
           | Inr w2 \<Rightarrow> Done () w2)
      | Raised e w1 \<Rightarrow> Raised e w1
      | OutOfFuel \<Rightarrow> OutOfFuel)"

subsection \<open>scrape_forum_index\<close>

text \<open>The \<open>for subforum_link in subforum_links\<close> loop.\<close>

fun subforums_loop ::
  "nat \<Rightarrow> ('n, 'f) env \<Rightarrow> pystr \<Rightarrow> pystr \<Rightarrow> link list \<Rightarrow> pystr list \<Rightarrow> ('n, 'f) world
    \<Rightarrow> (pystr list, ('n, 'f) world) outcome"
where
  "subforums_loop n E url forum_path [] all_forums_found w = Done all_forums_found w"
| "subforums_loop n E url forum_path (subforum_link # links) all_forums_found w =
     (let subforum_name = link_text subforum_link
      in if subforum_name = [] then subforums_loop n E url forum_path links all_forums_found w
         else
           let subforum_url = resolve_url E url (link_href subforum_link);
               found = all_forums_found @ [str ''  - '' @ subforum_name @ str '' | '' @ subforum_url];
               subforum_path = os_path_join forum_path (sanitize_filename subforum_name)
           in case scrape_topic_listing n E subforum_url subforum_path w of
                Done u w1 \<Rightarrow> subforums_loop n E url forum_path links found w1
              | Raised e w1 \<Rightarrow> Raised e w1
              | OutOfFuel \<Rightarrow> OutOfFuel)"

text \<open>The loops over the category tables and their rows, as one loop over all rows.\<close>

fun forum_rows_loop ::
  "nat \<Rightarrow> ('n, 'f) env \<Rightarrow> pystr \<Rightarrow> pystr \<Rightarrow> forum_row list \<Rightarrow> pystr list \<Rightarrow> ('n, 'f) world
    \<Rightarrow> (pystr list, ('n, 'f) world) outcome"
where
  "forum_rows_loop n E url current_path [] all_forums_found w = Done all_forums_found w"
| "forum_rows_loop n E url current_path (row # rows) all_forums_found w =
     (case forum_link row of
        None \<Rightarrow> forum_rows_loop n E url current_path rows all_forums_found w
      | Some main_forum_link_tag \<Rightarrow>
          let forum_name = link_text main_forum_link_tag;
              forum_url = resolve_url E url (link_href main_forum_link_tag)
          in if list_ex (\<lambda>f. contains f forum_url) all_forums_found
             then forum_rows_loop n E url current_path rows all_forums_found w
             else
               let found = all_forums_found @ [forum_name @ str '' | '' @ forum_url];
                   forum_path = os_path_join current_path (sanitize_filename forum_name)
               in case scrape_topic_listing n E forum_url forum_path w of
                    Done u w1 \<Rightarrow>
                      (case subforums_loop n E url forum_path
                              (case desc_links row of None \<Rightarrow> [] | Some links \<Rightarrow> links)
                              found w1 of
                         Done found2 w2 \<Rightarrow> forum_rows_loop n E url current_path rows found2 w2
                       | Raised e w2 \<Rightarrow> Raised e w2
                       | OutOfFuel \<Rightarrow> OutOfFuel)
                  | Raised e w1 \<Rightarrow> Raised e w1
                  | OutOfFuel \<Rightarrow> OutOfFuel)"

definition scrape_forum_index ::
  "nat \<Rightarrow> ('n, 'f) env \<Rightarrow> pystr \<Rightarrow> pystr \<Rightarrow> ('n, 'f) world
    \<Rightarrow> (pystr list, ('n, 'f) world) outcome"
where
  "scrape_forum_index n E url current_path w =
     (case make_soup E url w of
        (None, w1) \<Rightarrow> Done [] w1
      | (Some page, w1) \<Rightarrow>
          forum_rows_loop n E url current_path (concat (category_tables page)) [] w1)"

section \<open>Definitions for the statements\<close>

text \<open>A response that makes \<open>requests.get\<close> or \<open>raise_for_status\<close> raise.\<close>

fun failed :: "response \<Rightarrow> bool" where
  "failed (Ok page) = False"
| "failed ConnectionError = True"
| "failed HTTPError = True"

fun is_request :: "event \<Rightarrow> bool" where
  "is_request (Get url) = True"
| "is_request (Sleep n) = False"

text \<open>
  \<open>fetched_pages E url pages w w'\<close>: from the world \<open>w\<close>, the pages of the topic at \<open>url\<close>
  are fetched one after the other, each has a next link that leads to the following
  one, and the fetch after the last of them fails and leaves the world \<open>w'\<close>.
\<close>

fun fetched_pages ::
  "('n, 'f) env \<Rightarrow> pystr \<Rightarrow> soup list \<Rightarrow> ('n, 'f) world \<Rightarrow> ('n, 'f) world \<Rightarrow> bool"
where
  "fetched_pages E url [] w w' = (url \<noteq> [] \<and> make_soup E url w = (None, w'))"
| "fetched_pages E url (page # pages) w w' =
     (url \<noteq> [] \<and>
      (case make_soup E url w of
         (None, w1) \<Rightarrow> False
       | (Some p, w1) \<Rightarrow>
           p = page \<and>
           (case next_page E url page of
              Inl e \<Rightarrow> False
            | Inr None \<Rightarrow> False
            | Inr (Some url') \<Rightarrow> fetched_pages E url' pages w1 w')))"

text \<open>
  The cleaned date as the specification words it: the prefix \<open>Posted \<close> is removed from
  the front, a \<open>#\<close> with digits after it from the end, and the rest is trimmed.
\<close>

definition remove_prefix :: "pystr \<Rightarrow> pystr \<Rightarrow> pystr" where
  "remove_prefix p s = (if startswith s p then drop (length p) s else s)"

definition remove_post_number :: "(cp \<Rightarrow> bool) \<Rightarrow> pystr \<Rightarrow> pystr" where
  "remove_post_number digit s =
     (let r = dropWhile digit (rev s)
      in if r \<noteq> [] \<and> hd r = hash \<and> length r < length s then rev (tl r) else s)"

definition prefix_suffix_date :: "('n, 'f) env \<Rightarrow> pystr \<Rightarrow> pystr" where
  "prefix_suffix_date E post_date =
     strip (remove_post_number (is_digit E) (remove_prefix Posted post_date))"

text \<open>
  The text nodes of a tree that are not inside a quote block, a code block or an image:
  what the specification calls the remaining text nodes. Character data inside a
  \<open>script\<close>, \<open>style\<close>, \<open>template\<close>, \<open>rt\<close> or \<open>rp\<close> tag (\<open>inside\<close>) is not a text node.
\<close>

fun texts_outside :: "bool \<Rightarrow> node \<Rightarrow> pystr list" where
  "texts_outside inside (Text s) = (if inside then [] else [s])"
| "texts_outside inside (CData s) = [s]"
| "texts_outside inside (Comment s) = []"
| "texts_outside inside (Elem i name classes kids) =
     (if is_block name classes then []
      else concat (map (texts_outside (inside \<or> name \<in> set string_containers)) kids))"

definition remaining_texts :: "block \<Rightarrow> pystr list" where
  "remaining_texts post_content_div =
     concat (map (texts_outside (in_container post_content_div)) (contents post_content_div))"

text \<open>
  \<open>number_free digit d\<close>: no \<open>#\<close> of \<open>d\<close> has a digit after it, so that the pattern
  \<open>#\d+\<close> matches nowhere in \<open>d\<close>.
\<close>

fun number_free :: "(cp \<Rightarrow> bool) \<Rightarrow> pystr \<Rightarrow> bool" where
  "number_free digit [] = True"
| "number_free digit [c] = True"
| "number_free digit (c # e # cs) = (\<not> (c = hash \<and> digit e) \<and> number_free digit (e # cs))"

text \<open>
  \<open>extracted n E url rows w\<close>: the rows that have a topic link, each with its link and
  with the content that the post extractor returns for it, when the extractor is run on
  them one after the other from the world \<open>w\<close>. The list ends where a run of the
  extractor does not return.
\<close>

fun extracted ::
  "nat \<Rightarrow> ('n, 'f) env \<Rightarrow> pystr \<Rightarrow> topic_row list \<Rightarrow> ('n, 'f) world
    \<Rightarrow> (topic_row \<times> link \<times> pystr) list"
where
  "extracted n E current_page_url [] w = []"
| "extracted n E current_page_url (row # rows) w =
     (case topic_link row of
        None \<Rightarrow> extracted n E current_page_url rows w
      | Some tag \<Rightarrow>
          (case scrape_post_content n E (resolve_url E current_page_url (link_href tag)) w of
             Done post_content w1 \<Rightarrow>
               (row, tag, post_content) # extracted n E current_page_url rows w1
           | Raised e w1 \<Rightarrow> []
           | OutOfFuel \<Rightarrow> []))"

text \<open>The topics that yielded content, their listing lines and the writes of their files.\<close>

definition with_content ::
  "(topic_row \<times> link \<times> pystr) list \<Rightarrow> (topic_row \<times> link \<times> pystr) list"
where
  "with_content xs = filter (\<lambda>(row, tag, post_content). post_content \<noteq> []) xs"

definition listing_line :: "('n, 'f) env \<Rightarrow> pystr \<Rightarrow> topic_row \<times> link \<times> pystr \<Rightarrow> pystr" where
  "listing_line E current_page_url x =
     (case x of (row, tag, post_content) \<Rightarrow>
        link_text tag @ str '' | '' @ resolve_url E current_page_url (link_href tag))"

text \<open>The file system after \<open>os_write\<close>.\<close>

definition fs_after :: "('n, 'f) env \<Rightarrow> pystr \<Rightarrow> pystr \<Rightarrow> 'f \<Rightarrow> 'f" where
  "fs_after E filepath text f =
     (case os_write E f filepath text of
        Written f' \<Rightarrow> f' | OSError f' \<Rightarrow> f' | Other e f' \<Rightarrow> f')"

definition write_topic ::
  "('n, 'f) env \<Rightarrow> pystr \<Rightarrow> topic_row \<times> link \<times> pystr \<Rightarrow> 'f \<Rightarrow> 'f"
where
  "write_topic E current_path x f =
     (case x of (row, tag, post_content) \<Rightarrow>
        fs_after E (topic_filepath E current_path row (link_text tag)) post_content f)"

text \<open>
  What \<open>scrape_forum_index\<close> records and crawls, in order, as a function of the rows of
  the index page alone: each item is a listing entry with the URL and the path of the
  crawl made for it. A row whose forum URL occurs in an entry recorded before is passed
  over with its sub-forum links; every other row gives the entry of its forum and, after
  it, one indented entry for every sub-forum link with a name.
\<close>

fun forum_plan ::
  "('n, 'f) env \<Rightarrow> pystr \<Rightarrow> pystr \<Rightarrow> forum_row list \<Rightarrow> (pystr \<times> pystr \<times> pystr) list
    \<Rightarrow> (pystr \<times> pystr \<times> pystr) list"
where
  "forum_plan E url current_path [] plan = plan"
| "forum_plan E url current_path (row # rows) plan =
     (case forum_link row of
        None \<Rightarrow> forum_plan E url current_path rows plan
      | Some tag \<Rightarrow>
          let forum_url = resolve_url E url (link_href tag);
              forum_path = os_path_join current_path (sanitize_filename (link_text tag))
          in if list_ex (\<lambda>(entry, target). contains entry forum_url) plan
             then forum_plan E url current_path rows plan
             else forum_plan E url current_path rows
                    (plan
                     @ [(link_text tag @ str '' | '' @ forum_url, forum_url, forum_path)]
                     @ map (\<lambda>sub. (str ''  - '' @ link_text sub @ str '' | ''
                                      @ resolve_url E url (link_href sub),
                                    resolve_url E url (link_href sub),
                                    os_path_join forum_path (sanitize_filename (link_text sub))))
                         (filter (\<lambda>sub. link_text sub \<noteq> [])
                            (case desc_links row of None \<Rightarrow> [] | Some links \<Rightarrow> links))))"

section \<open>Definitions for the proofs\<close>

text \<open>
  \<open>normal s\<close>: every whitespace character or underscore of \<open>s\<close> is an underscore that
  is not followed by another one. These are the strings that \<open>sub_runs\<close> leaves alone.
\<close>

fun normal :: "pystr \<Rightarrow> bool" where
  "normal [] = True"
| "normal (c # cs) =
     ((space_or_underscore c \<longrightarrow>
         c = underscore \<and> (case cs of [] \<Rightarrow> True | d # ds \<Rightarrow> \<not> space_or_underscore d))
      \<and> normal cs)"

text \<open>For the proofs: the tree without the tags whose identity is in \<open>S\<close>.\<close>

fun tagged_in :: "nat set \<Rightarrow> node \<Rightarrow> bool" where
  "tagged_in S (Elem j name classes kids) = (j \<in> S)"
| "tagged_in S (Text s) = False"
| "tagged_in S (CData s) = False"
| "tagged_in S (Comment s) = False"

fun prune :: "nat set \<Rightarrow> node \<Rightarrow> node" where
  "prune S (Elem j name classes kids) =
     Elem j name classes (map (prune S) (filter (\<lambda>k. \<not> tagged_in S k) kids))"
| "prune S (Text s) = Text s"
| "prune S (CData s) = CData s"
| "prune S (Comment s) = Comment s"

definition prune_list :: "nat set \<Rightarrow> node list \<Rightarrow> node list" where
  "prune_list S kids = map (prune S) (filter (\<lambda>k. \<not> tagged_in S k) kids)"

text \<open>Two worlds that differ in the file system at most, and two such outcomes.\<close>

definition same_net :: "('n, 'f) world \<Rightarrow> ('n, 'f) world \<Rightarrow> bool" where
  "same_net v w \<longleftrightarrow> net v = net w \<and> trace v = trace w \<and> crawls v = crawls w"

fun same_outcome :: "('a, ('n, 'f) world) outcome \<Rightarrow> ('a, ('n, 'f) world) outcome \<Rightarrow> bool" where
  "same_outcome (Done x v) (Done y w) = (x = y \<and> same_net v w)"
| "same_outcome (Raised e v) (Raised d w) = (e = d \<and> same_net v w)"
| "same_outcome OutOfFuel OutOfFuel = True"
| "same_outcome a b = False"

section \<open>Environments and pages for concrete runs\<close>

text \<open>
  \<open>scripted\<close>: the network answers the requests from a list of responses, in order, and
  fails when the list is used up; the file system is the list of the writes made; the
  digits are the ASCII ones, concatenation stands for \<open>urljoin\<close>, and no date is found.
\<close>

definition scripted :: "(response list, (pystr \<times> pystr) list) env" where
  "scripted =
     \<lparr>urljoin = (\<lambda>base href. base @ href),
      is_digit = (\<lambda>c. 48 \<le> c \<and> c \<le> 57),
      search_date = (\<lambda>s. None),
      http_get = (\<lambda>n url. case n of [] \<Rightarrow> (ConnectionError, []) | r # rs \<Rightarrow> (r, rs)),
      os_write = (\<lambda>f filepath text. Written (f @ [(filepath, text)]))\<rparr>"

text \<open>\<open>read_only\<close>: as \<open>scripted\<close>, but every write raises an \<open>OSError\<close>.\<close>

definition read_only :: "(response list, (pystr \<times> pystr) list) env" where
  "read_only = scripted\<lparr>os_write := (\<lambda>f filepath text. OSError f)\<rparr>"

text \<open>A page on which the selectors find nothing, and the world before the first action.\<close>

definition blank_page :: soup where
  "blank_page = \<lparr>post_divs = [], next_link = None, topic_rows = [], category_tables = []\<rparr>"

definition start :: "'n \<Rightarrow> 'f \<Rightarrow> ('n, 'f) world" where
  "start n f = \<lparr>net = n, fs = f, trace = [], crawls = []\<rparr>"

text \<open>A topic of two pages with one post each; the second post quotes the first.\<close>

definition topic_page1 :: soup where
  "topic_page1 =
     \<lparr>post_divs =
        [\<lparr>content = \<lparr>in_container = False,
                       contents = [Text (str '' hello ''), Elem 1 (str ''br'') [] []]\<rparr>,
          wrap = Some \<lparr>author = Some (str ''ann''), posted_info = Some (str ''Posted 1 May 2016#1''),
                       signature = None\<rparr>\<rparr>],
      next_link = Some (Some (str ''http://t/2'')),
      topic_rows = [], category_tables = []\<rparr>"

definition topic_page2 :: soup where
  "topic_page2 =
     \<lparr>post_divs =
        [\<lparr>content = \<lparr>in_container = False,
                       contents = [Elem 1 (str ''div'') [str ''blockquote''] [Text (str ''hello'')],
                                   Text (str ''hi'')]\<rparr>,
          wrap = Some \<lparr>author = None, posted_info = None,
                       signature = Some \<lparr>in_container = False,
                                         contents = [Text (str ''bob''),
                                                     Elem 2 (str ''img'') [] []]\<rparr>\<rparr>\<rparr>],
      next_link = Some (Some (str ''http://t/3'')),
      topic_rows = [], category_tables = []\<rparr>"

text \<open>
  A post with a quote, a code block, an image, a comment, a script and a template
  between its own words.
\<close>

definition quoting_post :: block where
  "quoting_post =
     \<lparr>in_container = False,
      contents =
        [Text (str ''I agree ''),
         Elem 1 (str ''div'') [str ''blockquote'']
           [Text (str ''old ''), Elem 2 (str ''img'') [] [],
            Elem 3 (str ''b'') [] [Text (str ''words'')]],
         Text (str '' ''),
         Elem 4 (str ''pre'') [str ''prettyprint''] [Text (str ''x = 1'')],
         Elem 5 (str ''p'') []
           [Text (str '' with ''), Elem 6 (str ''img'') [] [], Comment (str ''c''),
            Elem 7 (str ''script'') [] [Text (str ''var a;'')],
            Elem 8 (str ''template'') []
              [Elem 9 (str ''i'') [] [Text (str ''t''), CData (str '' all '')]]],
         Text (str ''that.'')]\<rparr>"

text \<open>The last page of a topic, and two rows of a listing page.\<close>

definition topic_last_page :: soup where
  "topic_last_page = topic_page1\<lparr>next_link := None\<rparr>"

definition hello_row :: topic_row where
  "hello_row =
     \<lparr>topic_link = Some \<lparr>link_text = str ''Hello: all'', link_href = str ''http://t/1''\<rparr>,
      lastact = None\<rparr>"

definition quiet_row :: topic_row where
  "quiet_row =
     \<lparr>topic_link = Some \<lparr>link_text = str ''Quiet'', link_href = str ''http://t/9''\<rparr>,
      lastact = None\<rparr>"

text \<open>
  \<open>looping\<close>: every request is answered with a page whose next link leads to the page
  itself.
\<close>

definition loop_page :: soup where
  "loop_page = blank_page\<lparr>next_link := Some (Some (str ''http://f/1''))\<rparr>"

definition looping :: "(unit, (pystr \<times> pystr) list) env" where
  "looping =
     \<lparr>urljoin = (\<lambda>base href. base @ href),
      is_digit = (\<lambda>c. 48 \<le> c \<and> c \<le> 57),
      search_date = (\<lambda>s. None),
      http_get = (\<lambda>n url. (Ok loop_page, n)),
      os_write = (\<lambda>f filepath text. Written (f @ [(filepath, text)]))\<rparr>"

text \<open>Two pages of a forum, the first leading to the second.\<close>

definition forum_page2 :: soup where
  "forum_page2 = blank_page\<lparr>topic_rows := [quiet_row]\<rparr>"

definition forum_page1 :: soup where
  "forum_page1 =
     blank_page\<lparr>topic_rows := [hello_row], next_link := Some (Some (str ''http://f/2''))\<rparr>"

text \<open>
  An index with the forum \<open>A\<close> twice. In the first row its description links to the
  forum itself under the name \<open>B\<close> and, with no text, to another forum.
\<close>

definition index_page :: soup where
  "index_page = blank_page
     \<lparr>category_tables :=
        [[\<lparr>forum_link = Some \<lparr>link_text = str ''A'', link_href = str ''http://x/f=1''\<rparr>,
           desc_links = Some [\<lparr>link_text = str ''B'', link_href = str ''http://x/f=1''\<rparr>,
                              \<lparr>link_text = [], link_href = str ''http://x/f=9''\<rparr>]\<rparr>],
         [\<lparr>forum_link = Some \<lparr>link_text = str ''A again'', link_href = str ''http://x/f=1''\<rparr>,
           desc_links = None\<rparr>]]\<rparr>"

section \<open>Properties of the helper functions\<close>

subsection \<open>sanitize_filename\<close>

lemma sub_runs_set: "set (sub_runs s) \<subseteq> insert underscore (set s)"
proof (induction s rule: sub_runs.induct)
  case 1
  show ?case by simp
next
  case (2 c cs)
  show ?case
    using 2 set_dropWhileD[of _ space_or_underscore cs] by (auto split: if_splits)
qed

lemma underscore_valid: "underscore \<notin> set invalid_chars"
  by (simp add: underscore_def invalid_chars_def)

lemma sub_invalid_set: "set (sub_invalid s) \<inter> set invalid_chars = {}"
  using underscore_valid by (auto simp: sub_invalid_def)

lemma sanitize_valid: "set (sanitize_filename name) \<inter> set invalid_chars = {}"
proof -
  have "set (sanitize_filename name) \<subseteq> set (sub_runs (sub_invalid (strip name)))"
    by (simp add: sanitize_filename_def set_take_subset)
  also have "\<dots> \<subseteq> insert underscore (set (sub_invalid (strip name)))"
    by (rule sub_runs_set)
  finally show ?thesis
    using sub_invalid_set[of "strip name"] underscore_valid by auto
qed

lemma sanitize_A_B: "sanitize_filename (str ''A   B'') = str ''A_B''"
  by (simp add: sanitize_filename_def str_def strip_def isspace_def sub_invalid_def
      invalid_chars_def underscore_def space_or_underscore_def)

text \<open>
  C8. For every name, \<open>sanitize_filename name\<close> contains none of the characters
  \<open>\ / * ? : " < > |\<close> and has at most 100 characters; the empty string is mapped to the
  empty string and \<open>A   B\<close> to \<open>A_B\<close>.
\<close>

theorem sanitize_filename_spec:
  "set (sanitize_filename name) \<inter> set invalid_chars = {}
   \<and> length (sanitize_filename name) \<le> 100
   \<and> sanitize_filename [] = []
   \<and> sanitize_filename (str ''A   B'') = str ''A_B''"
proof -
  have "length (sanitize_filename name) \<le> 100"
    by (simp add: sanitize_filename_def)
  moreover have "sanitize_filename [] = []"
    by (simp add: sanitize_filename_def strip_def sub_invalid_def)
  ultimately show ?thesis
    using sanitize_valid sanitize_A_B by blast
qed

lemma sub_runs_hd:
  "l = [] \<or> \<not> space_or_underscore (hd l)
   \<Longrightarrow> sub_runs l = [] \<or> \<not> space_or_underscore (hd (sub_runs l))"
  by (cases l) auto

lemma sub_runs_dropWhile_hd:
  "sub_runs (dropWhile space_or_underscore cs) = []
   \<or> \<not> space_or_underscore (hd (sub_runs (dropWhile space_or_underscore cs)))"
  by (rule sub_runs_hd) (use hd_dropWhile[of space_or_underscore cs] in blast)

lemma normal_sub_runs: "normal (sub_runs s)"
proof (induction s rule: sub_runs.induct)
  case 1
  show ?case by simp
next
  case (2 c cs)
  show ?case
  proof (cases "space_or_underscore c")
    case True
    with 2 sub_runs_dropWhile_hd[of cs] show ?thesis by (auto split: list.splits)
  next
    case False
    with 2 show ?thesis by simp
  qed
qed

lemma normal_fixed: "normal s \<Longrightarrow> sub_runs s = s"
proof (induction s rule: sub_runs.induct)
  case 1
  show ?case by simp
next
  case (2 c cs)
  show ?case
  proof (cases "space_or_underscore c")
    case True
    with 2 have "dropWhile space_or_underscore cs = cs" by (cases cs) auto
    with 2 True show ?thesis by auto
  next
    case False
    with 2 show ?thesis by simp
  qed
qed

lemma normal_take: "normal s \<Longrightarrow> normal (take n s)"
proof (induction s arbitrary: n)
  case Nil
  show ?case by simp
next
  case (Cons c cs)
  show ?case
  proof (cases n)
    case 0
    then show ?thesis by simp
  next
    case (Suc m)
    from Cons have ih: "normal (take m cs)" by simp
    have "case take m cs of [] \<Rightarrow> True | d # ds \<Rightarrow> d = hd cs"
      by (cases cs; cases m) auto
    with Cons.prems ih Suc show ?thesis by (cases cs; cases m) auto
  qed
qed

lemma normal_no_space: "normal s \<Longrightarrow> c \<in> set s \<Longrightarrow> \<not> isspace c"
  by (induction s) (auto simp: space_or_underscore_def underscore_def isspace_def)

lemma strip_no_space: "\<forall>c\<in>set s. \<not> isspace c \<Longrightarrow> strip s = s"
proof -
  assume a: "\<forall>c\<in>set s. \<not> isspace c"
  have dw: "dropWhile isspace t = t" if "\<forall>c\<in>set t. \<not> isspace c" for t
    using that by (cases t) auto
  from a show ?thesis by (simp add: strip_def dw)
qed

lemma sub_invalid_id: "set s \<inter> set invalid_chars = {} \<Longrightarrow> sub_invalid s = s"
  unfolding sub_invalid_def by (rule map_idI) auto

text \<open>
  C9. \<open>sanitize_filename\<close> is idempotent.
\<close>

theorem sanitize_filename_idempotent:
  "sanitize_filename (sanitize_filename x) = sanitize_filename x"
proof -
  let ?y = "sanitize_filename x"
  have n: "normal ?y"
    unfolding sanitize_filename_def by (intro normal_take normal_sub_runs)
  then have "strip ?y = ?y"
    by (intro strip_no_space) (blast dest: normal_no_space)
  moreover have "sub_invalid ?y = ?y"
    by (rule sub_invalid_id) (rule sanitize_valid)
  moreover have "sub_runs ?y = ?y"
    using n by (rule normal_fixed)
  moreover have "take 100 ?y = ?y"
    by (simp add: sanitize_filename_def)
  ultimately show ?thesis
    by (simp add: sanitize_filename_def[of ?y])
qed

subsection \<open>resolve_url\<close>

text \<open>
  C1. \<open>resolve_url base href\<close> is \<open>href\<close> when \<open>href\<close> starts with \<open>http\<close>, is
  \<open>https://web.archive.org\<close> followed by \<open>href\<close> when \<open>href\<close> starts with \<open>/web/\<close>, and is
  \<open>urljoin(base, href)\<close> otherwise; this holds for every \<open>href\<close>, empty or not.
\<close>

theorem resolve_url_cases:
  "(startswith href (str ''http'') \<longrightarrow> resolve_url E base href = href)
   \<and> (startswith href (str ''/web/'') \<longrightarrow>
        resolve_url E base href = str ''https://web.archive.org'' @ href)
   \<and> (\<not> startswith href (str ''http'') \<and> \<not> startswith href (str ''/web/'') \<longrightarrow>
        resolve_url E base href = urljoin E base href)"
  by (cases href) (auto simp: resolve_url_def startswith_def str_def)

theorem resolve_url_cases_witness:
  "startswith (str ''http://a/b'') (str ''http'')
   \<and> resolve_url scripted (str ''http://x/'') (str ''http://a/b'') = str ''http://a/b''
   \<and> startswith (str ''/web/1/c'') (str ''/web/'')
   \<and> resolve_url scripted (str ''http://x/'') (str ''/web/1/c'')
       = str ''https://web.archive.org/web/1/c''
   \<and> \<not> startswith (str ''d?e=1'') (str ''http'') \<and> \<not> startswith (str ''d?e=1'') (str ''/web/'')
   \<and> resolve_url scripted (str ''http://x/'') (str ''d?e=1'') = str ''http://x/d?e=1''"
  using
    resolve_url_cases[of "str ''http://a/b''" scripted "str ''http://x/''"]
    resolve_url_cases[of "str ''/web/1/c''" scripted "str ''http://x/''"]
    resolve_url_cases[of "str ''d?e=1''" scripted "str ''http://x/''"]
  by (simp add: startswith_def str_def scripted_def)

subsection \<open>make_soup\<close>

lemma range_retries: "[0..<retries] = [0, 1, 2]"
  by (simp add: retries_def upt_rec numeral_2_eq_2)

lemma make_soup_unfold: "make_soup E url w = attempts E url [0, 1, 2] 5 w"
  by (simp only: make_soup_def range_retries)

text \<open>
  C5. Let \<open>r1\<close>, \<open>r2\<close>, \<open>r3\<close> be the responses that the network gives to the first, second
  and third request for \<open>url\<close>. \<open>make_soup\<close> returns the page of the first of them that
  succeeds and makes no request after it; when all three fail it returns \<open>None\<close>. No
  exception escapes, and at most three requests are made. Each request follows a sleep
  of 2 seconds; the wait after the first failure is 5 seconds, the wait after the second
  is 10, and there is none after the third.
\<close>

theorem make_soup_retries:
  assumes "http_get E (net w) url = (r1, n1)"
    and "http_get E n1 url = (r2, n2)"
    and "http_get E n2 url = (r3, n3)"
  shows
    "(r1 = Ok page \<longrightarrow>
        make_soup E url w = (Some page, w\<lparr>net := n1, trace := trace w @ [Sleep 2, Get url]\<rparr>))
     \<and> (failed r1 \<and> r2 = Ok page \<longrightarrow>
        make_soup E url w =
          (Some page, w\<lparr>net := n2,
             trace := trace w @ [Sleep 2, Get url, Sleep 5, Sleep 2, Get url]\<rparr>))
     \<and> (failed r1 \<and> failed r2 \<and> r3 = Ok page \<longrightarrow>
        make_soup E url w =
          (Some page, w\<lparr>net := n3,
             trace := trace w @ [Sleep 2, Get url, Sleep 5, Sleep 2, Get url,
                                 Sleep 10, Sleep 2, Get url]\<rparr>))
     \<and> (failed r1 \<and> failed r2 \<and> failed r3 \<longrightarrow>
        make_soup E url w =
          (None, w\<lparr>net := n3,
             trace := trace w @ [Sleep 2, Get url, Sleep 5, Sleep 2, Get url,
                                 Sleep 10, Sleep 2, Get url]\<rparr>))
     \<and> length (filter is_request (trace (snd (make_soup E url w))))
         \<le> length (filter is_request (trace w)) + 3"
  using assms
  by (cases r1; cases r2; cases r3)
    (simp_all add: make_soup_unfold REQUEST_DELAY_SECONDS_def retries_def)

theorem make_soup_retries_witness:
  "make_soup scripted (str ''u'') (start [Ok blank_page] [])
     = (Some blank_page, \<lparr>net = [], fs = [], trace = [Sleep 2, Get (str ''u'')], crawls = []\<rparr>)
   \<and> make_soup scripted (str ''u'') (start [HTTPError, Ok blank_page] [])
     = (Some blank_page, \<lparr>net = [], fs = [],
          trace = [Sleep 2, Get (str ''u''), Sleep 5, Sleep 2, Get (str ''u'')], crawls = []\<rparr>)
   \<and> make_soup scripted (str ''u'') (start [HTTPError, ConnectionError, Ok blank_page] [])
     = (Some blank_page, \<lparr>net = [], fs = [],
          trace = [Sleep 2, Get (str ''u''), Sleep 5, Sleep 2, Get (str ''u''),
                   Sleep 10, Sleep 2, Get (str ''u'')], crawls = []\<rparr>)
   \<and> make_soup scripted (str ''u'') (start [HTTPError, HTTPError, ConnectionError, Ok blank_page] [])
     = (None, \<lparr>net = [Ok blank_page], fs = [],
          trace = [Sleep 2, Get (str ''u''), Sleep 5, Sleep 2, Get (str ''u''),
                   Sleep 10, Sleep 2, Get (str ''u'')], crawls = []\<rparr>)"
  using
    make_soup_retries[of scripted "start [Ok blank_page] []" "str ''u''"
      "Ok blank_page" "[]" ConnectionError "[]" ConnectionError "[]" blank_page]
    make_soup_retries[of scripted "start [HTTPError, Ok blank_page] []" "str ''u''"
      HTTPError "[Ok blank_page]" "Ok blank_page" "[]" ConnectionError "[]" blank_page]
    make_soup_retries[of scripted "start [HTTPError, ConnectionError, Ok blank_page] []" "str ''u''"
      HTTPError "[ConnectionError, Ok blank_page]" ConnectionError "[Ok blank_page]"
      "Ok blank_page" "[]" blank_page]
    make_soup_retries[of scripted "start [HTTPError, HTTPError, ConnectionError, Ok blank_page] []"
      "str ''u''" HTTPError "[HTTPError, ConnectionError, Ok blank_page]"
      HTTPError "[ConnectionError, Ok blank_page]" ConnectionError "[Ok blank_page]" blank_page]
  by (simp add: scripted_def start_def)

section \<open>Properties of the post extractor\<close>

text \<open>The definitions that a concrete run unfolds.\<close>

lemmas run_defs = make_soup_unfold scripted_def start_def next_page_def resolve_url_def
  startswith_def str_def REQUEST_DELAY_SECONDS_def retries_def truthy_def

lemmas post_defs = page_posts_def post_texts_def clean_date_def Posted_def hash_def strip_def
  isspace_def post_body_def select_in_def decompose_def get_text_strip_def is_block_def
  signature_text_def is_img_def nl_def str_def startswith_def string_containers_def

subsection \<open>scrape_post_content\<close>

lemma post_pages_fetched:
  "fetched_pages E url pages w w' \<Longrightarrow> length pages < n \<Longrightarrow>
   post_pages n E (Some url) acc w = Done (acc @ concat (map (page_posts E) pages)) w'"
proof (induction pages arbitrary: n url w acc)
  case Nil
  then obtain m where "n = Suc m" by (cases n) auto
  with Nil show ?case by (simp add: truthy_def)
next
  case (Cons page pages)
  then obtain m where n: "n = Suc m" and m: "length pages < m" by (cases n) auto
  from Cons.prems(1) obtain w1 url' where
    u: "url \<noteq> []" and ms: "make_soup E url w = (Some page, w1)"
    and np: "next_page E url page = Inr (Some url')" and rest: "fetched_pages E url' pages w1 w'"
    by (auto split: prod.splits option.splits sum.splits)
  from Cons.IH[OF rest m] have "post_pages m E (Some url') (acc @ page_posts E page) w1
      = Done ((acc @ page_posts E page) @ concat (map (page_posts E) pages)) w'" .
  with n u ms np show ?case by (simp add: truthy_def)
qed

text \<open>
  C4. When the pages \<open>1..k\<close> of a topic are fetched, each leading to the next, and the
  fetch of page \<open>k+1\<close> gives \<open>None\<close>, then \<open>scrape_post_content\<close> returns (any bound above
  \<open>k\<close> on the iterations is enough, and no exception escapes) the texts of the posts of
  the pages \<open>1..k\<close>, in the order of the pages and, on a page, of the posts, joined with
  newlines.
\<close>

theorem scrape_post_content_partial:
  assumes "fetched_pages E topic_url pages w w'" and "length pages < n"
  shows "scrape_post_content n E topic_url w
         = Done (join nl (concat (map (page_posts E) pages))) w'"
  using post_pages_fetched[OF assms, of "[]"] by (simp add: scrape_post_content_def)

theorem scrape_post_content_partial_witness:
  "fetched_pages scripted (str ''http://t/1'') [topic_page1, topic_page2]
     (start [Ok topic_page1, Ok topic_page2] [])
     \<lparr>net = [], fs = [],
      trace = [Sleep 2, Get (str ''http://t/1''), Sleep 2, Get (str ''http://t/2''),
               Sleep 2, Get (str ''http://t/3''), Sleep 5, Sleep 2, Get (str ''http://t/3''),
               Sleep 10, Sleep 2, Get (str ''http://t/3'')],
      crawls = []\<rparr>
   \<and> length [topic_page1, topic_page2] < 3
   \<and> scrape_post_content 3 scripted (str ''http://t/1'')
       (start [Ok topic_page1, Ok topic_page2] [])
     = Done (str ''--- User: ann | Date: 1 May 2016 ---'' @ nl @ nl @ str ''hello'' @ nl
             @ nl @ replicate 80 (of_char CHR ''='') @ nl @ nl
             @ str ''--- User: Unknown User | Date: Unknown Date ---'' @ nl @ nl @ str ''hi'' @ nl
             @ nl @ str ''--- Signature ---'' @ nl @ str ''bob'' @ nl
             @ nl @ replicate 80 (of_char CHR ''='') @ nl)
         \<lparr>net = [], fs = [],
          trace = [Sleep 2, Get (str ''http://t/1''), Sleep 2, Get (str ''http://t/2''),
                   Sleep 2, Get (str ''http://t/3''), Sleep 5, Sleep 2, Get (str ''http://t/3''),
                   Sleep 10, Sleep 2, Get (str ''http://t/3'')],
          crawls = []\<rparr>"
proof -
  let ?w' = "\<lparr>net = [] :: response list, fs = [] :: (pystr \<times> pystr) list,
      trace = [Sleep 2, Get (str ''http://t/1''), Sleep 2, Get (str ''http://t/2''),
               Sleep 2, Get (str ''http://t/3''), Sleep 5, Sleep 2, Get (str ''http://t/3''),
               Sleep 10, Sleep 2, Get (str ''http://t/3'')],
      crawls = []\<rparr>"
  have f: "fetched_pages scripted (str ''http://t/1'') [topic_page1, topic_page2]
     (start [Ok topic_page1, Ok topic_page2] []) ?w'"
    by (simp add: run_defs topic_page1_def topic_page2_def)
  have l: "length [topic_page1, topic_page2] < 3" by simp
  have v: "join nl (concat (map (page_posts scripted) [topic_page1, topic_page2]))
     = str ''--- User: ann | Date: 1 May 2016 ---'' @ nl @ nl @ str ''hello'' @ nl
             @ nl @ replicate 80 (of_char CHR ''='') @ nl @ nl
             @ str ''--- User: Unknown User | Date: Unknown Date ---'' @ nl @ nl @ str ''hi'' @ nl
             @ nl @ str ''--- Signature ---'' @ nl @ str ''bob'' @ nl
             @ nl @ replicate 80 (of_char CHR ''='') @ nl"
    by (simp add: post_defs scripted_def topic_page1_def topic_page2_def)
  show ?thesis
    using f l scrape_post_content_partial[OF f l] v by simp
qed

subsection \<open>The posted date\<close>

lemma hash_not_in_Posted: "hash \<notin> set Posted"
  by (simp add: hash_def Posted_def str_def)

lemma length_Posted: "length Posted = 7"
  by (simp add: Posted_def str_def)

lemma contains_startswith: "startswith s p \<Longrightarrow> contains s p"
  by (cases s) (auto simp: startswith_def)

lemma no_Posted_here:
  assumes "\<not> contains d Posted" and "sfx = [] \<or> hd sfx = hash"
  shows "\<not> startswith (d @ sfx) Posted"
proof
  assume s: "startswith (d @ sfx) Posted"
  show False
  proof (cases "7 \<le> length d")
    case True
    with s have "startswith d Posted" by (simp add: startswith_def length_Posted)
    with assms(1) show False by (blast dest: contains_startswith)
  next
    case False
    from s have eq: "take 7 (d @ sfx) = Posted" by (simp add: startswith_def length_Posted)
    show False
    proof (cases sfx)
      case Nil
      with eq have "length (take 7 d) = 7" by (simp add: length_Posted)
      with False show False by simp
    next
      case (Cons h t)
      with assms(2) have "h = hash" by simp
      from False obtain k where "7 - length d = Suc k" by (cases "7 - length d") auto
      with Cons \<open>h = hash\<close> have "hash \<in> set (take 7 (d @ sfx))" by simp
      with eq hash_not_in_Posted show False by simp
    qed
  qed
qed

lemma number_free_tl: "number_free digit (c # d) \<Longrightarrow> number_free digit d"
  by (cases d) auto

lemma number_free_inside:
  "number_free digit (a @ c # e # b) \<Longrightarrow> \<not> (c = hash \<and> digit e)"
proof (induction a)
  case Nil
  then show ?case by simp
next
  case (Cons x a)
  from Cons.prems have "number_free digit (a @ c # e # b)"
    unfolding append_Cons by (rule number_free_tl)
  then show ?case by (rule Cons.IH)
qed

lemma sub_posted_plain:
  assumes "\<not> contains d Posted" and "number_free digit d" and "\<not> digit hash"
    and "sfx = [] \<or> (\<exists>ds. ds \<noteq> [] \<and> (\<forall>c\<in>set ds. digit c) \<and> sfx = hash # ds)"
  shows "sub_posted digit (d @ sfx) = d"
  using assms(1,2)
proof (induction d)
  case Nil
  show ?case
  proof (cases sfx)
    case Nil
    then show ?thesis by simp
  next
    case (Cons h t)
    with assms(4) have h: "h = hash" and t: "t \<noteq> []" "\<forall>c\<in>set t. digit c" by auto
    then have dw: "dropWhile digit t = []" by simp
    have ns: "\<not> startswith (h # t) Posted"
      using h by (simp add: startswith_def Posted_def str_def hash_def)
    from t have "digit (hd t)" by (cases t) auto
    with ns t(1) show ?thesis unfolding Cons h by (simp add: dw)
  qed
next
  case (Cons c d)
  have sf: "sfx = [] \<or> hd sfx = hash" using assms(4) by auto
  with Cons.prems have np: "\<not> startswith ((c # d) @ sfx) Posted" by (intro no_Posted_here) auto
  have nn: "\<not> (c = hash \<and> d @ sfx \<noteq> [] \<and> digit (hd (d @ sfx)))"
  proof (cases d)
    case Nil
    with sf assms(3) show ?thesis by (cases sfx) auto
  next
    case (Cons e d')
    with Cons.prems(2) show ?thesis by simp
  qed
  from Cons.prems have "\<not> contains d Posted" "number_free digit d"
    by (auto dest: number_free_tl)
  with Cons.IH have ih: "sub_posted digit (d @ sfx) = d" by simp
  from np have np': "\<not> startswith (c # (d @ sfx)) Posted" by simp
  have "sub_posted digit (c # (d @ sfx)) = c # sub_posted digit (d @ sfx)"
    by (subst sub_posted.simps) (simp only: np' nn if_False)
  with ih show ?case by simp
qed

lemma sub_posted_Posted: "sub_posted digit (Posted @ s) = sub_posted digit s"
  by (simp add: Posted_def str_def startswith_def)

lemma remove_prefix_Posted:
  assumes "p = [] \<or> p = Posted" and "\<not> contains d Posted" and "sfx = [] \<or> hd sfx = hash"
  shows "remove_prefix Posted (p @ d @ sfx) = d @ sfx"
proof -
  from assms(2,3) have "\<not> startswith (d @ sfx) Posted" by (rule no_Posted_here)
  moreover have "startswith (Posted @ d @ sfx) Posted" by (simp add: startswith_def)
  ultimately show ?thesis using assms(1) by (auto simp: remove_prefix_def)
qed

lemma remove_post_number_plain:
  assumes "number_free digit d" and "\<not> digit hash"
    and "sfx = [] \<or> (\<exists>ds. ds \<noteq> [] \<and> (\<forall>c\<in>set ds. digit c) \<and> sfx = hash # ds)"
  shows "remove_post_number digit (d @ sfx) = d"
proof (cases sfx)
  case Nil
  let ?r = "dropWhile digit (rev d)"
  have neg: "\<not> (?r \<noteq> [] \<and> hd ?r = hash \<and> length ?r < length d)"
  proof
    assume a: "?r \<noteq> [] \<and> hd ?r = hash \<and> length ?r < length d"
    let ?t = "takeWhile digit (rev d)"
    from a obtain r' where r: "?r = hash # r'" by (cases ?r) auto
    have split: "rev d = ?t @ ?r" by simp
    from a have "?t \<noteq> []"
      using length_append[of ?t ?r] unfolding split[symmetric] by auto
    then obtain x t' where t: "rev ?t = rev t' @ [x]" and dx: "digit x"
      by (metis hd_Cons_tl rev.simps(2) set_takeWhileD list.set_intros(1))
    have "d = rev (rev d)" by simp
    also have "\<dots> = rev r' @ hash # rev ?t" by (subst split) (simp add: r)
    finally have "d = rev r' @ hash # rev ?t" .
    moreover obtain e b where "rev ?t = e # b" and "digit e"
      using \<open>?t \<noteq> []\<close> by (metis hd_Cons_tl hd_rev last_in_set rev_is_Nil_conv set_takeWhileD)
    ultimately have "d = rev r' @ hash # e # b" by simp
    with assms(1) have "\<not> (hash = hash \<and> digit e)" by (metis number_free_inside)
    with \<open>digit e\<close> show False by simp
  qed
  have "remove_post_number digit d = d"
    unfolding remove_post_number_def Let_def by (simp only: neg if_False)
  with Nil show ?thesis by simp
next
  case (Cons h t)
  with assms(3) have h: "h = hash" and t: "t \<noteq> []" "\<forall>c\<in>set t. digit c" by auto
  have "dropWhile digit (rev t @ hash # rev d) = dropWhile digit (hash # rev d)"
    using t(2) by (intro dropWhile_append2) simp
  then have "dropWhile digit (rev (d @ hash # t)) = hash # rev d"
    using assms(2) by simp
  with t(1) show ?thesis unfolding Cons h by (simp add: remove_post_number_def)
qed

text \<open>
  C2, as amended. For a raw date made of an optional prefix \<open>Posted \<close>, a text \<open>d\<close> and an
  optional suffix of \<open>#\<close> and digits, where \<open>Posted \<close> does not occur in \<open>d\<close> and no \<open>#\<close> of
  \<open>d\<close> has a digit after it, the cleaned date is \<open>d\<close> without the whitespace around it,
  which is also the raw string without the prefix and the suffix, trimmed. (\<open>#\<close> is not
  a digit.)
\<close>

theorem clean_date_prefix_suffix:
  assumes "p = [] \<or> p = Posted"
    and "sfx = [] \<or> (\<exists>ds. ds \<noteq> [] \<and> (\<forall>c\<in>set ds. is_digit E c) \<and> sfx = hash # ds)"
    and "\<not> is_digit E hash"
    and "number_free (is_digit E) d" and "\<not> contains d Posted"
  shows "clean_date E (p @ d @ sfx) = strip d
         \<and> prefix_suffix_date E (p @ d @ sfx) = strip d"
proof -
  from assms(2) have sf: "sfx = [] \<or> hd sfx = hash" by auto
  have "sub_posted (is_digit E) (p @ d @ sfx) = d"
    using assms(1) sub_posted_plain[OF assms(5,4,3,2)] by (auto simp: sub_posted_Posted)
  moreover have "remove_post_number (is_digit E) (remove_prefix Posted (p @ d @ sfx)) = d"
    by (simp only: remove_prefix_Posted[OF assms(1,5) sf] remove_post_number_plain[OF assms(4,3,2)])
  ultimately show ?thesis by (simp add: clean_date_def prefix_suffix_date_def)
qed

theorem clean_date_prefix_suffix_witness:
  "(Posted = [] \<or> Posted = Posted)
   \<and> (str ''#31'' = [] \<or>
        (\<exists>ds. ds \<noteq> [] \<and> (\<forall>c\<in>set ds. is_digit scripted c) \<and> str ''#31'' = hash # ds))
   \<and> \<not> is_digit scripted hash
   \<and> number_free (is_digit scripted) (str ''12 May 2016 C# thread '')
   \<and> \<not> contains (str ''12 May 2016 C# thread '') Posted
   \<and> clean_date scripted (Posted @ str ''12 May 2016 C# thread '' @ str ''#31'')
       = str ''12 May 2016 C# thread''
   \<and> prefix_suffix_date scripted (Posted @ str ''12 May 2016 C# thread '' @ str ''#31'')
       = str ''12 May 2016 C# thread''"
proof -
  have a: "Posted = [] \<or> Posted = Posted" by simp
  have b: "str ''#31'' = [] \<or>
        (\<exists>ds. ds \<noteq> [] \<and> (\<forall>c\<in>set ds. is_digit scripted c) \<and> str ''#31'' = hash # ds)"
    by (simp add: str_def hash_def scripted_def)
  have c: "\<not> is_digit scripted hash"
    by (simp add: hash_def scripted_def)
  have d: "number_free (is_digit scripted) (str ''12 May 2016 C# thread '')"
    by (simp add: str_def hash_def scripted_def)
  have e: "\<not> contains (str ''12 May 2016 C# thread '') Posted"
    by (simp add: str_def Posted_def startswith_def)
  have f: "strip (str ''12 May 2016 C# thread '') = str ''12 May 2016 C# thread''"
    by (simp add: str_def strip_def isspace_def)
  show ?thesis
    using a b c d e f clean_date_prefix_suffix[OF a b c d e] by simp
qed

text \<open>
  C2 as stated fails: \<open>Posted \<close> and \<open>#\<close> with digits are removed wherever they occur,
  not only at the two ends. Here the post number stands in front, and removing a prefix
  and a suffix would have left the string as it is.
\<close>

theorem clean_date_counterexample:
  "clean_date scripted (str ''#3 Posted 12 May 2016'') = str ''12 May 2016''
   \<and> prefix_suffix_date scripted (str ''#3 Posted 12 May 2016'') = str ''#3 Posted 12 May 2016''
   \<and> clean_date scripted (str ''#3 Posted 12 May 2016'')
       \<noteq> prefix_suffix_date scripted (str ''#3 Posted 12 May 2016'')"
  by (simp add: clean_date_def prefix_suffix_date_def remove_prefix_def remove_post_number_def
      Posted_def hash_def strip_def isspace_def startswith_def str_def scripted_def)

subsection \<open>The body of a post\<close>

lemma is_tag_prune: "is_tag i (prune S k) = is_tag i k"
  by (cases k) auto

lemma tagged_in_insert: "tagged_in (insert i S) k \<longleftrightarrow> is_tag i k \<or> tagged_in S k"
  by (cases k) auto

lemma remove_tag_prune: "remove_tag i (prune S t) = prune (insert i S) t"
proof (induction t)
  case (Elem j name classes kids)
  have "map (remove_tag i) (filter (\<lambda>k. \<not> is_tag i k) (map (prune S) (filter (\<lambda>k. \<not> tagged_in S k) kids)))
      = map (prune (insert i S)) (filter (\<lambda>k. \<not> tagged_in (insert i S) k) kids)"
    using Elem
    by (induction kids) (auto simp: is_tag_prune tagged_in_insert)
  then show ?case by simp
qed simp_all

lemma decompose_prune_list: "decompose i (prune_list S kids) = prune_list (insert i S) kids"
  unfolding decompose_def prune_list_def
  by (induction kids) (auto simp: is_tag_prune tagged_in_insert remove_tag_prune)

lemma not_tagged_empty: "\<not> tagged_in {} k"
  by (cases k) auto

lemma prune_empty: "prune {} t = t"
  by (induction t) (simp_all add: not_tagged_empty map_idI)

lemma prune_list_empty: "prune_list {} kids = kids"
  by (induction kids) (simp_all add: prune_list_def not_tagged_empty prune_empty)

lemma prune_list_Cons: "prune_list S (k # kids) = prune_list S [k] @ prune_list S kids"
  by (simp add: prune_list_def)

lemma fold_decompose_prune:
  "fold decompose is (prune_list S kids) = prune_list (S \<union> set is) kids"
  by (induction "is" arbitrary: S) (simp_all add: decompose_prune_list)

lemma decompose_all: "fold decompose is kids = prune_list (set is) kids"
  using fold_decompose_prune[of "is" "{}" kids] by (simp add: prune_list_empty)

lemma matching_idents: "set (matching sel t) \<subseteq> set (idents t)"
  by (induction t) auto

lemma select_in_idents: "set (select_in sel kids) \<subseteq> set (concat (map idents kids))"
  using matching_idents by (fastforce simp: select_in_def)

text \<open>The strings left in a list of trees after the removals.\<close>

lemma strings_pruned_list:
  assumes nodes: "\<And>k S. k \<in> set kids \<Longrightarrow> distinct (idents k) \<Longrightarrow>
      S \<inter> set (idents k) = set (matching is_block k) \<Longrightarrow>
      concat (map (all_strings c) (prune_list S [k])) = texts_outside c k"
    and "distinct (concat (map idents kids))"
    and "S \<inter> set (concat (map idents kids)) = set (select_in is_block kids)"
  shows "concat (map (all_strings c) (prune_list S kids)) = concat (map (texts_outside c) kids)"
  using assms
proof (induction kids)
  case Nil
  show ?case by (simp add: prune_list_def)
next
  case (Cons k kids)
  from Cons.prems(2) have dk: "distinct (idents k)" and dr: "distinct (concat (map idents kids))"
    and dj: "set (idents k) \<inter> set (concat (map idents kids)) = {}" by auto
  have mk: "set (matching is_block k) \<subseteq> set (idents k)" by (rule matching_idents)
  have mr: "set (select_in is_block kids) \<subseteq> set (concat (map idents kids))"
    by (rule select_in_idents)
  from Cons.prems(3) have eq: "S \<inter> (set (idents k) \<union> set (concat (map idents kids)))
      = set (matching is_block k) \<union> set (select_in is_block kids)"
    by (simp add: select_in_def)
  have sk: "S \<inter> set (idents k) = set (matching is_block k)"
    using eq dj mk mr by blast
  have sr: "S \<inter> set (concat (map idents kids)) = set (select_in is_block kids)"
    using eq dj mk mr by blast
  have "concat (map (all_strings c) (prune_list S [k])) = texts_outside c k"
    using Cons.prems(1)[of k S] dk sk by simp
  moreover have "concat (map (all_strings c) (prune_list S kids))
      = concat (map (texts_outside c) kids)"
    using Cons.IH[OF _ dr sr] Cons.prems(1) by simp
  ultimately show ?case by (simp add: prune_list_Cons[of S k kids])
qed

lemma strings_pruned_node:
  "distinct (idents t) \<Longrightarrow> S \<inter> set (idents t) = set (matching is_block t) \<Longrightarrow>
   concat (map (all_strings c) (prune_list S [t])) = texts_outside c t"
proof (induction t arbitrary: S c)
  case (Elem j name classes kids)
  from Elem.prems(1) have jn: "j \<notin> set (concat (map idents kids))"
    and dr: "distinct (concat (map idents kids))" by auto
  have mr: "set (select_in is_block kids) \<subseteq> set (concat (map idents kids))"
    by (rule select_in_idents)
  from Elem.prems(2) have eq: "S \<inter> insert j (set (concat (map idents kids)))
      = (if is_block name classes then {j} else {}) \<union> set (select_in is_block kids)"
    by (simp add: select_in_def)
  have js: "j \<in> S \<longleftrightarrow> is_block name classes"
    using eq jn mr by (auto split: if_splits)
  have sr: "S \<inter> set (concat (map idents kids)) = set (select_in is_block kids)"
    using eq jn mr by (auto split: if_splits)
  show ?case
  proof (cases "is_block name classes")
    case True
    with js show ?thesis by (simp add: prune_list_def)
  next
    case False
    have "concat (map (all_strings (c \<or> name \<in> set string_containers)) (prune_list S kids))
        = concat (map (texts_outside (c \<or> name \<in> set string_containers)) kids)"
      using Elem.IH dr sr by (intro strings_pruned_list) auto
    with False js show ?thesis by (simp add: prune_list_def)
  qed
qed (simp_all add: prune_list_def)

lemma strings_after_decompose:
  assumes "distinct (concat (map idents kids))"
  shows "concat (map (all_strings c) (fold decompose (select_in is_block kids) kids))
         = concat (map (texts_outside c) kids)"
proof -
  have "set (select_in is_block kids) \<inter> set (concat (map idents kids))
        = set (select_in is_block kids)"
    using select_in_idents[of is_block kids] by blast
  then show ?thesis
    unfolding decompose_all
    using assms by (intro strings_pruned_list strings_pruned_node) auto
qed


lemma last_dropWhile: "dropWhile P xs \<noteq> [] \<Longrightarrow> last (dropWhile P xs) = last xs"
  by (induction xs) (auto split: if_splits)

lemma strip_ends:
  assumes "strip s \<noteq> []"
  shows "\<not> isspace (hd (strip s)) \<and> \<not> isspace (last (strip s))"
proof -
  let ?a = "dropWhile isspace s"
  let ?b = "dropWhile isspace (rev ?a)"
  from assms have b: "?b \<noteq> []" by (simp add: strip_def)
  have a: "?a \<noteq> []"
  proof
    assume "?a = []"
    then have "?b = []" by (simp only: rev.simps dropWhile.simps)
    with b show False by contradiction
  qed
  have "last (strip s) = hd ?b" using b by (simp add: strip_def last_rev)
  moreover have "\<not> isspace (hd ?b)" using b by (rule hd_dropWhile)
  moreover have "hd (strip s) = last ?b" using b by (simp add: strip_def hd_rev)
  moreover have "last ?b = last (rev ?a)" using b by (rule last_dropWhile)
  moreover have "last (rev ?a) = hd ?a" using a by (simp add: last_rev)
  moreover have "\<not> isspace (hd ?a)" using a by (rule hd_dropWhile)
  ultimately show ?thesis by simp
qed

lemma strip_fixed:
  assumes "s \<noteq> []" and "\<not> isspace (hd s)" and "\<not> isspace (last s)"
  shows "strip s = s"
proof -
  from assms(1,2) have "dropWhile isspace s = s" by (cases s) auto
  moreover from assms(1,3) have "dropWhile isspace (rev s) = rev s"
    by (cases "rev s") (auto simp: hd_rev[symmetric])
  ultimately show ?thesis by (simp add: strip_def)
qed

lemma join_ends:
  assumes "xs \<noteq> []" and "\<forall>x\<in>set xs. x \<noteq> []"
  shows "join sep xs \<noteq> [] \<and> hd (join sep xs) = hd (hd xs) \<and> last (join sep xs) = last (last xs)"
  using assms by (induction sep xs rule: join.induct) auto

lemma strip_join_stripped:
  "strip (join sep (filter (\<lambda>s. s \<noteq> []) (map strip ys)))
   = join sep (filter (\<lambda>s. s \<noteq> []) (map strip ys))"
proof (cases "filter (\<lambda>s. s \<noteq> []) (map strip ys) = []")
  case True
  then show ?thesis by (simp add: strip_def)
next
  case False
  let ?xs = "filter (\<lambda>s. s \<noteq> []) (map strip ys)"
  have ne: "\<forall>x\<in>set ?xs. x \<noteq> []" by simp
  have ends: "\<not> isspace (hd x) \<and> \<not> isspace (last x)" if "x \<in> set ?xs" for x
    using that strip_ends by auto
  from False have "hd ?xs \<in> set ?xs" "last ?xs \<in> set ?xs" by (simp_all del: set_filter)
  with ends have "\<not> isspace (hd (hd ?xs))" "\<not> isspace (last (last ?xs))" by blast+
  with join_ends[OF False ne, of sep] show ?thesis by (intro strip_fixed) simp_all
qed

text \<open>
  C3, as amended. The body of a post whose tags have distinct identities is made of the
  text nodes of the content block that are not inside a nested \<open>div.blockquote\<close>,
  \<open>pre.prettyprint\<close> or \<open>img\<close>, and of nothing else: each of them is trimmed, those left
  empty are dropped, and the others are joined with newlines. The result has no whitespace
  at either end. Character data inside a \<open>script\<close>, \<open>style\<close>, \<open>template\<close>, \<open>rt\<close> or \<open>rp\<close>
  tag is not a text node and is left out as well.
\<close>

theorem post_body_excludes_blocks:
  assumes "distinct (concat (map idents (contents post_content_div)))"
  shows "post_body post_content_div
           = join nl (filter (\<lambda>s. s \<noteq> []) (map strip (remaining_texts post_content_div)))
         \<and> strip (post_body post_content_div) = post_body post_content_div"
proof -
  have "post_body post_content_div
      = join nl (filter (\<lambda>s. s \<noteq> []) (map strip (remaining_texts post_content_div)))"
    by (simp add: post_body_def get_text_strip_def remaining_texts_def
        strings_after_decompose[OF assms])
  then show ?thesis by (simp add: strip_join_stripped)
qed

theorem post_body_excludes_blocks_witness:
  "distinct (concat (map idents (contents quoting_post)))
   \<and> post_body quoting_post = str ''I agree'' @ nl @ str ''with'' @ nl @ str ''all'' @ nl @ str ''that.''
   \<and> strip (post_body quoting_post) = post_body quoting_post"
proof -
  have d: "distinct (concat (map idents (contents quoting_post)))"
    by (simp add: quoting_post_def)
  have v: "join nl (filter (\<lambda>s. s \<noteq> []) (map strip (remaining_texts quoting_post)))
      = str ''I agree'' @ nl @ str ''with'' @ nl @ str ''all'' @ nl @ str ''that.''"
    by (simp add: quoting_post_def remaining_texts_def is_block_def string_containers_def
        str_def strip_def isspace_def nl_def)
  show ?thesis
    using d v post_body_excludes_blocks[OF d] by (simp add: str_def strip_def isspace_def nl_def)
qed

text \<open>
  C3 as stated fails in its last part: the body is neither the remaining text nodes
  joined with newlines and trimmed at the two ends, nor the trimmed text nodes joined
  with newlines, since every node is trimmed and the blank ones are left out.
\<close>

theorem post_body_counterexample:
  "post_body quoting_post \<noteq> strip (join nl (remaining_texts quoting_post))
   \<and> post_body quoting_post \<noteq> join nl (map strip (remaining_texts quoting_post))"
  by (simp add: quoting_post_def remaining_texts_def post_defs)

section \<open>Properties of the crawlers\<close>

subsection \<open>What the fetcher and the post extractor leave alone\<close>

lemma attempts_keeps:
  "fs (snd (attempts E url as delay w)) = fs w \<and> crawls (snd (attempts E url as delay w)) = crawls w"
  by (induction as arbitrary: delay w) (auto simp: Let_def split: prod.splits response.splits)

lemma make_soup_keeps:
  "make_soup E url w = (r, w1) \<Longrightarrow> fs w1 = fs w \<and> crawls w1 = crawls w"
  using attempts_keeps[of E url "[0..<retries]" 5 w] by (simp add: make_soup_def)

lemma post_pages_keeps:
  "post_pages n E cur acc w = Done acc' w' \<Longrightarrow> fs w' = fs w \<and> crawls w' = crawls w"
proof (induction n arbitrary: cur acc w)
  case 0
  then show ?case by simp
next
  case (Suc n)
  show ?case
  proof (cases "truthy cur")
    case False
    with Suc.prems show ?thesis by simp
  next
    case True
    obtain r w1 where ms: "make_soup E (the cur) w = (r, w1)" by (cases "make_soup E (the cur) w")
    note k = make_soup_keeps[OF ms]
    show ?thesis
    proof (cases r)
      case None
      with Suc.prems True ms k show ?thesis by simp
    next
      case (Some page)
      with Suc.prems True ms obtain nxt where
        "post_pages n E nxt (acc @ page_posts E page) w1 = Done acc' w'"
        by (auto split: sum.splits)
      from Suc.IH[OF this] k show ?thesis by simp
    qed
  qed
qed

lemma scrape_post_content_keeps:
  "scrape_post_content n E url w = Done c w' \<Longrightarrow> fs w' = fs w \<and> crawls w' = crawls w"
  by (auto simp: scrape_post_content_def split: outcome.splits dest: post_pages_keeps)

lemma write_to_file_Inr:
  "write_to_file E p c w = Inr w2 \<Longrightarrow>
   fs w2 = fs_after E p c (fs w) \<and> net w2 = net w \<and> trace w2 = trace w \<and> crawls w2 = crawls w"
  by (auto simp: write_to_file_def fs_after_def split: write_result.splits)

subsection \<open>The post extractor does not read the file system\<close>

lemma attempts_Cons:
  "http_get E (net w) url = (r, n') \<Longrightarrow>
   attempts E url (a # as) delay w =
     (case r of
        Ok page \<Rightarrow>
          (Some page, w\<lparr>net := n', trace := trace w @ [Sleep REQUEST_DELAY_SECONDS, Get url]\<rparr>)
      | _ \<Rightarrow>
          if a < retries - 1
          then attempts E url as (delay * 2)
                 (w\<lparr>net := n',
                    trace := trace w @ [Sleep REQUEST_DELAY_SECONDS, Get url, Sleep delay]\<rparr>)
          else (None, w\<lparr>net := n', trace := trace w @ [Sleep REQUEST_DELAY_SECONDS, Get url]\<rparr>))"
  by (simp add: Let_def split: response.splits)

lemma attempts_same:
  "same_net v w \<Longrightarrow>
   fst (attempts E url as delay v) = fst (attempts E url as delay w)
   \<and> same_net (snd (attempts E url as delay v)) (snd (attempts E url as delay w))"
proof (induction as arbitrary: delay v w)
  case Nil
  then show ?case by simp
next
  case (Cons a as)
  obtain r n' where g: "http_get E (net w) url = (r, n')" by force
  from Cons.prems have nv: "net v = net w" by (simp add: same_net_def)
  with g have gv: "http_get E (net v) url = (r, n')" by simp
  let ?v = "v\<lparr>net := n', trace := trace v @ [Sleep REQUEST_DELAY_SECONDS, Get url, Sleep delay]\<rparr>"
  let ?w = "w\<lparr>net := n', trace := trace w @ [Sleep REQUEST_DELAY_SECONDS, Get url, Sleep delay]\<rparr>"
  from Cons.prems have s: "same_net ?v ?w" by (simp add: same_net_def)
  note ih = Cons.IH[OF s, of "delay * 2"]
  show ?case
    unfolding attempts_Cons[OF gv] attempts_Cons[OF g]
    using ih Cons.prems by (cases r) (simp_all add: same_net_def del: attempts.simps)
qed

lemma make_soup_same:
  assumes "same_net v w" and "make_soup E url w = (r, w1)"
  shows "\<exists>v1. make_soup E url v = (r, v1) \<and> same_net v1 w1"
  using attempts_same[OF assms(1), of E url "[0..<retries]" 5] assms(2)
  by (cases "make_soup E url v") (simp add: make_soup_def)

lemma post_pages_same:
  "same_net v w \<Longrightarrow> same_outcome (post_pages n E cur acc v) (post_pages n E cur acc w)"
proof (induction n arbitrary: cur acc v w)
  case 0
  show ?case by simp
next
  case (Suc n)
  show ?case
  proof (cases "truthy cur")
    case False
    with Suc.prems show ?thesis by simp
  next
    case True
    obtain r w1 where ms: "make_soup E (the cur) w = (r, w1)" by (cases "make_soup E (the cur) w")
    from make_soup_same[OF Suc.prems ms] obtain v1 where
      mv: "make_soup E (the cur) v = (r, v1)" and s: "same_net v1 w1" by blast
    show ?thesis
    proof (cases r)
      case None
      with True ms mv s show ?thesis by simp
    next
      case (Some page)
      show ?thesis
      proof (cases "next_page E (the cur) page")
        case (Inl e)
        with True ms mv s Some show ?thesis by simp
      next
        case (Inr nxt)
        with True ms mv Some Suc.IH[OF s, of nxt "acc @ page_posts E page"] show ?thesis by simp
      qed
    qed
  qed
qed

lemma scrape_post_content_same:
  assumes "same_net v w" and "scrape_post_content n E url w = Done c w1"
  shows "\<exists>v1. scrape_post_content n E url v = Done c v1 \<and> same_net v1 w1"
proof -
  from assms(2) obtain acc where w: "post_pages n E (Some url) [] w = Done acc w1" and c: "c = join nl acc"
    by (auto simp: scrape_post_content_def split: outcome.splits)
  from post_pages_same[OF assms(1), of n E "Some url" "[]"] w obtain v1 where
    "post_pages n E (Some url) [] v = Done acc v1" "same_net v1 w1"
    by (cases "post_pages n E (Some url) [] v") auto
  with c show ?thesis by (simp add: scrape_post_content_def)
qed

subsection \<open>The loop over the topic rows\<close>

lemma topic_rows_loop_extracted:
  "same_net v w \<Longrightarrow> topic_rows_loop n E u p rows listing w = Done listing' w' \<Longrightarrow>
   length (extracted n E u rows v) = length (filter (\<lambda>row. topic_link row \<noteq> None) rows)
   \<and> listing' = listing @ map (listing_line E u) (with_content (extracted n E u rows v))
   \<and> fs w' = fold (write_topic E p) (with_content (extracted n E u rows v)) (fs w)
   \<and> crawls w' = crawls w"
proof (induction rows arbitrary: listing w v)
  case Nil
  then show ?case by (simp add: with_content_def)
next
  case (Cons row rows)
  show ?case
  proof (cases "topic_link row")
    case None
    with Cons.prems(2) have "topic_rows_loop n E u p rows listing w = Done listing' w'" by simp
    from Cons.IH[OF Cons.prems(1) this] None show ?thesis by simp
  next
    case (Some tag)
    let ?url = "resolve_url E u (link_href tag)"
    from Cons.prems(2) Some obtain c w1 where
      s: "scrape_post_content n E ?url w = Done c w1"
      by (auto simp: Let_def split: outcome.splits)
    from scrape_post_content_same[OF Cons.prems(1) s] obtain v1 where
      sv: "scrape_post_content n E ?url v = Done c v1" and sn: "same_net v1 w1" by blast
    from scrape_post_content_keeps[OF s] have k: "fs w1 = fs w" "crawls w1 = crawls w" by simp_all
    have ex: "extracted n E u (row # rows) v = (row, tag, c) # extracted n E u rows v1"
      using Some sv by simp
    show ?thesis
    proof (cases "c = []")
      case True
      with Cons.prems(2) Some s have "topic_rows_loop n E u p rows listing w1 = Done listing' w'"
        by (simp add: Let_def)
      from Cons.IH[OF sn this] k True show ?thesis
        unfolding ex by (simp add: with_content_def Some)
    next
      case False
      let ?path = "topic_filepath E p row (link_text tag)"
      from Cons.prems(2) Some s False obtain w2 where
        wr: "write_to_file E ?path c w1 = Inr w2"
        and r: "topic_rows_loop n E u p rows (listing @ [link_text tag @ str '' | '' @ ?url]) w2
                = Done listing' w'"
        by (auto simp: Let_def split: sum.splits)
      note f = write_to_file_Inr[OF wr]
      from sn f have sn2: "same_net v1 w2" by (simp add: same_net_def)
      from Cons.IH[OF sn2 r] k f False show ?thesis
        unfolding ex by (simp add: with_content_def listing_line_def write_topic_def Some)
    qed
  qed
qed

text \<open>
  C7, as amended. Let the loop over the topic rows of a page return. Then the post
  extractor has been run on every discovered topic row (every row with a topic link), in
  order. The listing lines added are those of the rows for which it returned content that
  is not empty, and for exactly these rows, in the same order, \<open>write_to_file\<close> has been
  called on the topic file; nothing else has touched the file system. Each of these calls
  writes the file unless the file system raises an \<open>OSError\<close>, which is caught and leaves
  the listing line in place.
\<close>

theorem topic_rows_gated:
  assumes "topic_rows_loop n E current_page_url current_path rows topic_listing w
           = Done topic_listing' w'"
  shows "length (extracted n E current_page_url rows w)
           = length (filter (\<lambda>row. topic_link row \<noteq> None) rows)
         \<and> topic_listing' = topic_listing
             @ map (listing_line E current_page_url)
                 (with_content (extracted n E current_page_url rows w))
         \<and> fs w' = fold (write_topic E current_path)
                       (with_content (extracted n E current_page_url rows w)) (fs w)"
  using topic_rows_loop_extracted[OF _ assms, of w] by (simp add: same_net_def)

lemmas write_defs = write_to_file_def topic_filepath_def date_prefix_def os_path_join_def
  sanitize_filename_def sub_invalid_def invalid_chars_def underscore_def
  space_or_underscore_def hello_row_def quiet_row_def

theorem topic_rows_gated_witness:
  "topic_rows_loop (Suc (Suc 0)) scripted (str ''http://f/1'') (str ''forums/f'') [hello_row, quiet_row] []
     (start [Ok topic_last_page] [])
   = Done [str ''Hello: all | http://t/1'']
       \<lparr>net = [],
        fs = [(str ''forums/f/unknown_date-Hello_all.txt'',
               str ''--- User: ann | Date: 1 May 2016 ---'' @ nl @ nl @ str ''hello'' @ nl
               @ nl @ replicate 80 (of_char CHR ''='') @ nl)],
        trace = [Sleep 2, Get (str ''http://t/1''),
                 Sleep 2, Get (str ''http://t/9''), Sleep 5,
                 Sleep 2, Get (str ''http://t/9''), Sleep 10,
                 Sleep 2, Get (str ''http://t/9'')],
        crawls = []\<rparr>
   \<and> extracted (Suc (Suc 0)) scripted (str ''http://f/1'') [hello_row, quiet_row]
       (start [Ok topic_last_page] [])
     = [(hello_row, \<lparr>link_text = str ''Hello: all'', link_href = str ''http://t/1''\<rparr>,
         str ''--- User: ann | Date: 1 May 2016 ---'' @ nl @ nl @ str ''hello'' @ nl
         @ nl @ replicate 80 (of_char CHR ''='') @ nl),
        (quiet_row, \<lparr>link_text = str ''Quiet'', link_href = str ''http://t/9''\<rparr>, [])]
   \<and> length (filter (\<lambda>row. topic_link row \<noteq> None) [hello_row, quiet_row]) = 2
   \<and> fold (write_topic scripted (str ''forums/f''))
         (with_content (extracted (Suc (Suc 0)) scripted (str ''http://f/1'') [hello_row, quiet_row]
            (start [Ok topic_last_page] []))) []
     = [(str ''forums/f/unknown_date-Hello_all.txt'',
         str ''--- User: ann | Date: 1 May 2016 ---'' @ nl @ nl @ str ''hello'' @ nl
         @ nl @ replicate 80 (of_char CHR ''='') @ nl)]"
proof -
  let ?text = "str ''--- User: ann | Date: 1 May 2016 ---'' @ nl @ nl @ str ''hello'' @ nl
               @ nl @ replicate 80 (of_char CHR ''='') @ nl"
  let ?w0 = "start [Ok topic_last_page] [] :: (response list, (pystr \<times> pystr) list) world"
  let ?w' = "\<lparr>net = [] :: response list,
        fs = [(str ''forums/f/unknown_date-Hello_all.txt'', ?text)],
        trace = [Sleep 2, Get (str ''http://t/1''),
                 Sleep 2, Get (str ''http://t/9''), Sleep 5,
                 Sleep 2, Get (str ''http://t/9''), Sleep 10,
                 Sleep 2, Get (str ''http://t/9'')],
        crawls = []\<rparr>"
  let ?rows = "[hello_row, quiet_row]"
  have a: "topic_rows_loop (Suc (Suc 0)) scripted (str ''http://f/1'') (str ''forums/f'') ?rows [] ?w0
      = Done [str ''Hello: all | http://t/1''] ?w'"
    by (simp add: scrape_post_content_def Let_def run_defs post_defs write_defs
        topic_last_page_def topic_page1_def strip_def isspace_def)
  have b: "extracted (Suc (Suc 0)) scripted (str ''http://f/1'') ?rows ?w0
     = [(hello_row, \<lparr>link_text = str ''Hello: all'', link_href = str ''http://t/1''\<rparr>, ?text),
        (quiet_row, \<lparr>link_text = str ''Quiet'', link_href = str ''http://t/9''\<rparr>, [])]"
    by (simp add: scrape_post_content_def Let_def run_defs post_defs
        hello_row_def quiet_row_def topic_last_page_def topic_page1_def)
  have c: "length (filter (\<lambda>row. topic_link row \<noteq> None) ?rows) = 2"
    by (simp add: hello_row_def quiet_row_def)
  have f: "fs ?w' = [(str ''forums/f/unknown_date-Hello_all.txt'', ?text)]" "fs ?w0 = []"
    by (simp_all add: start_def)
  from topic_rows_gated[OF a]
  have d: "fold (write_topic scripted (str ''forums/f''))
         (with_content (extracted (Suc (Suc 0)) scripted (str ''http://f/1'') ?rows ?w0)) []
      = [(str ''forums/f/unknown_date-Hello_all.txt'', ?text)]"
    by (simp only: f)
  from a b c d show ?thesis by (simp only: simp_thms)
qed

text \<open>
  C7 as stated fails when the file system refuses the write: the content is not empty
  and the listing line is recorded, but no topic file is written.
\<close>

theorem topic_rows_counterexample:
  "scrape_post_content (Suc (Suc 0)) read_only (str ''http://t/1'') (start [Ok topic_last_page] [])
   = Done (str ''--- User: ann | Date: 1 May 2016 ---'' @ nl @ nl @ str ''hello'' @ nl
           @ nl @ replicate 80 (of_char CHR ''='') @ nl)
       \<lparr>net = [], fs = [], trace = [Sleep 2, Get (str ''http://t/1'')], crawls = []\<rparr>
   \<and> topic_rows_loop (Suc (Suc 0)) read_only (str ''http://f/1'') (str ''forums/f'') [hello_row] []
       (start [Ok topic_last_page] [])
     = Done [str ''Hello: all | http://t/1'']
         \<lparr>net = [], fs = [], trace = [Sleep 2, Get (str ''http://t/1'')], crawls = []\<rparr>"
  by (simp add: scrape_post_content_def Let_def run_defs post_defs write_defs
      read_only_def topic_last_page_def topic_page1_def strip_def isspace_def)

subsection \<open>scrape_topic_listing\<close>

lemma attempts_crawls_update:
  "attempts E url as delay (w\<lparr>crawls := c\<rparr>)
   = (fst (attempts E url as delay w), (snd (attempts E url as delay w))\<lparr>crawls := c\<rparr>)"
proof (induction as arbitrary: delay w)
  case Nil
  show ?case by simp
next
  case (Cons a as)
  obtain r n' where g: "http_get E (net w) url = (r, n')" by force
  let ?v = "w\<lparr>net := n', trace := trace w @ [Sleep REQUEST_DELAY_SECONDS, Get url, Sleep delay]\<rparr>"
  have e: "w\<lparr>crawls := c, net := n',
      trace := trace w @ [Sleep REQUEST_DELAY_SECONDS, Get url, Sleep delay]\<rparr> = ?v\<lparr>crawls := c\<rparr>"
    by simp
  note ih = Cons.IH[of "delay * 2" ?v]
  show ?case using g by (cases r) (simp_all add: Let_def, simp_all only: e ih, simp_all)
qed

lemma make_soup_crawls_update:
  "make_soup E url w = (r, w1) \<Longrightarrow> make_soup E url (w\<lparr>crawls := c\<rparr>) = (r, w1\<lparr>crawls := c\<rparr>)"
  by (simp add: make_soup_def attempts_crawls_update)

lemma topic_pages_grows:
  "topic_pages n E cur p listing w = Done listing' w' \<Longrightarrow>
   (\<exists>added. listing' = listing @ added \<and> (added = [] \<longrightarrow> fs w' = fs w))
   \<and> crawls w' = crawls w"
proof (induction n arbitrary: cur listing w)
  case 0
  then show ?case by simp
next
  case (Suc n)
  show ?case
  proof (cases "truthy cur")
    case False
    with Suc.prems show ?thesis by simp
  next
    case True
    obtain r w1 where ms: "make_soup E (the cur) w = (r, w1)" by (cases "make_soup E (the cur) w")
    note k = make_soup_keeps[OF ms]
    show ?thesis
    proof (cases r)
      case None
      with Suc.prems True ms k show ?thesis by simp
    next
      case (Some page)
      with Suc.prems True ms obtain l2 w2 nxt where
        r: "topic_rows_loop n E (the cur) p (topic_rows page) listing w1 = Done l2 w2"
        and t: "topic_pages n E nxt p l2 w2 = Done listing' w'"
        by (auto split: outcome.splits sum.splits)
      let ?x = "with_content (extracted n E (the cur) (topic_rows page) w1)"
      from topic_rows_loop_extracted[OF _ r, of w1] have
        l2: "l2 = listing @ map (listing_line E (the cur)) ?x"
        and f2: "fs w2 = fold (write_topic E p) ?x (fs w1)" and c2: "crawls w2 = crawls w1"
        by (simp_all add: same_net_def)
      from Suc.IH[OF t] obtain added where
        a: "listing' = l2 @ added" "added = [] \<longrightarrow> fs w' = fs w2" and c: "crawls w' = crawls w2"
        by blast
      let ?added = "map (listing_line E (the cur)) ?x @ added"
      have e1: "listing' = listing @ ?added"
        using a(1) l2 by simp
      have e2: "?added = [] \<longrightarrow> fs w' = fs w"
        using a(2) f2 k by auto
      have e3: "crawls w' = crawls w" using c c2 k by simp
      from e1 e2 have "\<exists>added. listing' = listing @ added \<and> (added = [] \<longrightarrow> fs w' = fs w)"
        by (intro exI[of _ ?added] conjI)
      with e3 show ?thesis by simp
    qed
  qed
qed

text \<open>
  C10, as amended. A call of \<open>scrape_topic_listing\<close> that returns ends by calling
  \<open>write_to_file\<close> on \<open>listing.txt\<close> under the output path, with the listing lines that its
  loop has collected, joined with newlines: the directory is created and the file written
  unless the file system raises an \<open>OSError\<close>, which is caught. When no line has been
  collected, because no topic yielded content, this write of an empty listing is the only
  one of the call. The call does return in this way, with an empty listing, when the fetch
  of the first page fails (and the write raises nothing but an \<open>OSError\<close>).
\<close>

theorem scrape_topic_listing_writes:
  "(scrape_topic_listing n E forum_url current_path w = Done u w' \<longrightarrow>
      (case topic_pages n E (Some forum_url) current_path []
              (w\<lparr>crawls := crawls w @ [(forum_url, current_path)]\<rparr>) of
         Done topic_listing w1 \<Rightarrow>
           write_to_file E (os_path_join current_path (str ''listing.txt''))
             (join nl topic_listing) w1 = Inr w'
           \<and> fs w' = fs_after E (os_path_join current_path (str ''listing.txt''))
                        (join nl topic_listing) (fs w1)
           \<and> (topic_listing = [] \<longrightarrow> fs w1 = fs w)
       | Raised e w1 \<Rightarrow> False
       | OutOfFuel \<Rightarrow> False))
   \<and> (forum_url \<noteq> [] \<and> make_soup E forum_url w = (None, v) \<longrightarrow>
        scrape_topic_listing (Suc n) E forum_url current_path w =
          (case os_write E (fs w) (os_path_join current_path (str ''listing.txt'')) [] of
             Written f \<Rightarrow>
               Done () (v\<lparr>fs := f, crawls := crawls w @ [(forum_url, current_path)]\<rparr>)
           | OSError f \<Rightarrow>
               Done () (v\<lparr>fs := f, crawls := crawls w @ [(forum_url, current_path)]\<rparr>)
           | Other e f \<Rightarrow>
               Raised e (v\<lparr>fs := f, crawls := crawls w @ [(forum_url, current_path)]\<rparr>)))"
proof (intro conjI impI)
  let ?w0 = "w\<lparr>crawls := crawls w @ [(forum_url, current_path)]\<rparr>"
  let ?lp = "os_path_join current_path (str ''listing.txt'')"
  assume d: "scrape_topic_listing n E forum_url current_path w = Done u w'"
  then obtain topic_listing w1 where
    t: "topic_pages n E (Some forum_url) current_path [] ?w0 = Done topic_listing w1"
    and wr: "write_to_file E ?lp (join nl topic_listing) w1 = Inr w'"
    by (auto simp: scrape_topic_listing_def split: outcome.splits sum.splits)
  from topic_pages_grows[OF t] have "topic_listing = [] \<longrightarrow> fs w1 = fs w" by auto
  with t wr write_to_file_Inr[OF wr]
  show "case topic_pages n E (Some forum_url) current_path [] ?w0 of
         Done topic_listing w1 \<Rightarrow>
           write_to_file E ?lp (join nl topic_listing) w1 = Inr w'
           \<and> fs w' = fs_after E ?lp (join nl topic_listing) (fs w1)
           \<and> (topic_listing = [] \<longrightarrow> fs w1 = fs w)
       | Raised e w1 \<Rightarrow> False
       | OutOfFuel \<Rightarrow> False"
    by simp
next
  let ?c = "crawls w @ [(forum_url, current_path)]"
  let ?lp = "os_path_join current_path (str ''listing.txt'')"
  assume a: "forum_url \<noteq> [] \<and> make_soup E forum_url w = (None, v)"
  then have ms: "make_soup E forum_url w = (None, v)" by simp
  from make_soup_crawls_update[OF ms] have ms0:
    "make_soup E forum_url (w\<lparr>crawls := ?c\<rparr>) = (None, v\<lparr>crawls := ?c\<rparr>)" .
  from make_soup_keeps[OF ms] have k: "fs v = fs w" by simp
  from a ms0 have t: "topic_pages (Suc n) E (Some forum_url) current_path [] (w\<lparr>crawls := ?c\<rparr>)
      = Done [] (v\<lparr>crawls := ?c\<rparr>)"
    by (simp add: truthy_def)
  show "scrape_topic_listing (Suc n) E forum_url current_path w =
          (case os_write E (fs w) ?lp [] of
             Written f \<Rightarrow> Done () (v\<lparr>fs := f, crawls := ?c\<rparr>)
           | OSError f \<Rightarrow> Done () (v\<lparr>fs := f, crawls := ?c\<rparr>)
           | Other e f \<Rightarrow> Raised e (v\<lparr>fs := f, crawls := ?c\<rparr>))"
    unfolding scrape_topic_listing_def t
    by (simp add: write_to_file_def k split: write_result.splits)
qed


theorem scrape_topic_listing_writes_witness:
  "scrape_topic_listing (Suc (Suc (Suc 0))) scripted (str ''http://f/1'') (str ''forums/f'')
     (start [Ok forum_page1, HTTPError, HTTPError, HTTPError, Ok forum_page2] [])
   = Done ()
       \<lparr>net = [], fs = [(str ''forums/f/listing.txt'', [])],
        trace = [Sleep 2, Get (str ''http://f/1''),
                 Sleep 2, Get (str ''http://t/1''), Sleep 5,
                 Sleep 2, Get (str ''http://t/1''), Sleep 10,
                 Sleep 2, Get (str ''http://t/1''),
                 Sleep 2, Get (str ''http://f/2''),
                 Sleep 2, Get (str ''http://t/9''), Sleep 5,
                 Sleep 2, Get (str ''http://t/9''), Sleep 10,
                 Sleep 2, Get (str ''http://t/9'')],
        crawls = [(str ''http://f/1'', str ''forums/f'')]\<rparr>
   \<and> fs_after scripted (os_path_join (str ''forums/f'') (str ''listing.txt'')) (join nl []) []
     = [(str ''forums/f/listing.txt'', [])]
   \<and> str ''http://f/1'' \<noteq> []
   \<and> make_soup scripted (str ''http://f/1'') (start [] [])
     = (None,
        \<lparr>net = [], fs = [],
         trace = [Sleep 2, Get (str ''http://f/1''), Sleep 5, Sleep 2, Get (str ''http://f/1''),
                  Sleep 10, Sleep 2, Get (str ''http://f/1'')],
         crawls = []\<rparr>)
   \<and> scrape_topic_listing (Suc 0) scripted (str ''http://f/1'') (str ''forums/f'') (start [] [])
     = Done ()
         \<lparr>net = [], fs = [(str ''forums/f/listing.txt'', [])],
          trace = [Sleep 2, Get (str ''http://f/1''), Sleep 5, Sleep 2, Get (str ''http://f/1''),
                   Sleep 10, Sleep 2, Get (str ''http://f/1'')],
          crawls = [(str ''http://f/1'', str ''forums/f'')]\<rparr>"
proof -
  let ?u = "str ''http://f/1''"
  let ?p = "str ''forums/f''"
  let ?lp = "os_path_join ?p (str ''listing.txt'')"
  let ?w0 = "start [Ok forum_page1, HTTPError, HTTPError, HTTPError, Ok forum_page2] []
      :: (response list, (pystr \<times> pystr) list) world"
  let ?t = "[Sleep 2, Get (str ''http://f/1''),
                 Sleep 2, Get (str ''http://t/1''), Sleep 5,
                 Sleep 2, Get (str ''http://t/1''), Sleep 10,
                 Sleep 2, Get (str ''http://t/1''),
                 Sleep 2, Get (str ''http://f/2''),
                 Sleep 2, Get (str ''http://t/9''), Sleep 5,
                 Sleep 2, Get (str ''http://t/9''), Sleep 10,
                 Sleep 2, Get (str ''http://t/9'')]"
  let ?W = "\<lparr>net = [] :: response list, fs = [(str ''forums/f/listing.txt'', [])],
        trace = ?t, crawls = [(?u, ?p)]\<rparr>"
  let ?W1 = "\<lparr>net = [] :: response list, fs = [] :: (pystr \<times> pystr) list,
        trace = ?t, crawls = [(?u, ?p)]\<rparr>"
  let ?v0 = "start [] [] :: (response list, (pystr \<times> pystr) list) world"
  let ?s = "[Sleep 2, Get (str ''http://f/1''), Sleep 5, Sleep 2, Get (str ''http://f/1''),
                  Sleep 10, Sleep 2, Get (str ''http://f/1'')]"
  let ?V = "\<lparr>net = [] :: response list, fs = [] :: (pystr \<times> pystr) list,
         trace = ?s, crawls = []\<rparr>"
  have t: "topic_pages (Suc (Suc (Suc 0))) scripted (Some ?u) ?p []
      (?w0\<lparr>crawls := crawls ?w0 @ [(?u, ?p)]\<rparr>) = Done [] ?W1"
    by (simp add: scrape_post_content_def Let_def run_defs forum_page1_def forum_page2_def
        blank_page_def hello_row_def quiet_row_def)
  have l: "?lp = str ''forums/f/listing.txt''"
    by (simp add: os_path_join_def str_def startswith_def)
  have a: "scrape_topic_listing (Suc (Suc (Suc 0))) scripted ?u ?p ?w0 = Done () ?W"
    unfolding scrape_topic_listing_def t
    by (simp add: l write_to_file_def scripted_def)
  from scrape_topic_listing_writes[where n="Suc (Suc (Suc 0))" and E=scripted and forum_url="?u"
      and current_path="?p" and w="?w0" and u="()" and w'="?W",
      THEN conjunct1, rule_format, OF a]
  have b: "fs ?W = fs_after scripted ?lp (join nl []) (fs ?W1)"
    unfolding t by simp
  then have b': "fs_after scripted ?lp (join nl []) [] = [(str ''forums/f/listing.txt'', [])]"
    by simp
  have c: "?u \<noteq> [] \<and> make_soup scripted ?u ?v0 = (None, ?V)"
    by (simp add: run_defs)
  from scrape_topic_listing_writes[where n=0 and E=scripted and forum_url="?u"
      and current_path="?p" and w="?v0" and v="?V",
      THEN conjunct2, rule_format, OF c]
  have d: "scrape_topic_listing (Suc 0) scripted ?u ?p ?v0
      = Done () \<lparr>net = [], fs = [(str ''forums/f/listing.txt'', [])], trace = ?s,
                 crawls = [(?u, ?p)]\<rparr>"
    by (simp add: l scripted_def start_def)
  from a b' c d show ?thesis by (simp only: simp_thms)
qed

lemma looping_pages:
  "topic_pages n looping (Some (str ''http://f/1'')) p listing w = OutOfFuel"
proof (induction n arbitrary: listing w)
  case 0
  show ?case by simp
next
  case (Suc n)
  have "make_soup looping (str ''http://f/1'') w
      = (Some loop_page, w\<lparr>trace := trace w @ [Sleep 2, Get (str ''http://f/1'')]\<rparr>)"
    by (simp add: make_soup_unfold looping_def REQUEST_DELAY_SECONDS_def)
  moreover have "next_page looping (str ''http://f/1'') loop_page = Inr (Some (str ''http://f/1''))"
    by (simp add: next_page_def loop_page_def blank_page_def resolve_url_def startswith_def str_def)
  moreover have "topic_rows loop_page = []"
    by (simp add: loop_page_def blank_page_def)
  moreover have "truthy (Some (str ''http://f/1''))"
    by (simp add: truthy_def str_def)
  ultimately show ?case using Suc by simp
qed

text \<open>
  C10 as stated fails: nothing bounds the pagination, and a call on a forum whose next
  link leads back to the same page never returns, whatever the bound on the iterations;
  it writes no \<open>listing.txt\<close>.
\<close>

theorem scrape_topic_listing_counterexample:
  "\<not> (\<exists>n u w'. scrape_topic_listing n looping (str ''http://f/1'') (str ''forums/f'')
                    (start () []) = Done u w')"
  by (simp add: scrape_topic_listing_def looping_pages)

subsection \<open>scrape_forum_index\<close>

lemma scrape_topic_listing_crawls:
  assumes "scrape_topic_listing n E u p w = Done x w'"
  shows "crawls w' = crawls w @ [(u, p)]"
proof -
  let ?w0 = "w\<lparr>crawls := crawls w @ [(u, p)]\<rparr>"
  from assms obtain listing w1 where
    t: "topic_pages n E (Some u) p [] ?w0 = Done listing w1"
    and f: "write_to_file E (os_path_join p (str ''listing.txt'')) (join nl listing) w1 = Inr w'"
    by (auto simp: scrape_topic_listing_def Let_def split: outcome.splits sum.splits)
  from topic_pages_grows[OF t] have "crawls w1 = crawls ?w0" by simp
  with write_to_file_Inr[OF f] show ?thesis by simp
qed

lemma subforums_loop_plan:
  "subforums_loop n E url forum_path links found w = Done found' w' \<Longrightarrow>
   found' = found @ map (\<lambda>sub. str ''  - '' @ link_text sub @ str '' | ''
                                @ resolve_url E url (link_href sub))
                      (filter (\<lambda>sub. link_text sub \<noteq> []) links)
   \<and> crawls w' = crawls w @ map (\<lambda>sub. (resolve_url E url (link_href sub),
                                          os_path_join forum_path (sanitize_filename (link_text sub))))
                                (filter (\<lambda>sub. link_text sub \<noteq> []) links)"
proof (induction links arbitrary: found w)
  case Nil
  then show ?case by simp
next
  case (Cons sub links)
  show ?case
  proof (cases "link_text sub = []")
    case True
    with Cons show ?thesis by simp
  next
    case False
    let ?u = "resolve_url E url (link_href sub)"
    let ?p = "os_path_join forum_path (sanitize_filename (link_text sub))"
    from Cons.prems False obtain x w1 where
      c: "scrape_topic_listing n E ?u ?p w = Done x w1"
      and r: "subforums_loop n E url forum_path links
                (found @ [str ''  - '' @ link_text sub @ str '' | '' @ ?u]) w1 = Done found' w'"
      by (auto simp: Let_def split: outcome.splits)
    from Cons.IH[OF r] scrape_topic_listing_crawls[OF c] False show ?thesis by simp
  qed
qed

lemma forum_rows_loop_plan:
  "forum_rows_loop n E url current_path rows found w = Done found' w' \<Longrightarrow>
   found = map fst plan \<Longrightarrow> crawls w = c0 @ map snd plan \<Longrightarrow>
   found' = map fst (forum_plan E url current_path rows plan)
   \<and> crawls w' = c0 @ map snd (forum_plan E url current_path rows plan)"
proof (induction rows arbitrary: found w plan)
  case Nil
  then show ?case by simp
next
  case (Cons row rows)
  show ?case
  proof (cases "forum_link row")
    case None
    with Cons show ?thesis by simp
  next
    case (Some tag)
    let ?u = "resolve_url E url (link_href tag)"
    let ?p = "os_path_join current_path (sanitize_filename (link_text tag))"
    let ?subs = "case desc_links row of None \<Rightarrow> [] | Some links \<Rightarrow> links"
    have dup: "list_ex (\<lambda>f. contains f ?u) found
        \<longleftrightarrow> list_ex (\<lambda>(entry, target). contains entry ?u) plan"
      using Cons.prems(2) by (force simp: list_ex_iff)
    show ?thesis
    proof (cases "list_ex (\<lambda>f. contains f ?u) found")
      case True
      with Cons.prems(1) Some have
        "forum_rows_loop n E url current_path rows found w = Done found' w'"
        by (simp add: Let_def)
      from Cons.IH[OF this Cons.prems(2,3)] True dup Some show ?thesis
        by (simp add: Let_def)
    next
      case False
      from Cons.prems(1) Some False obtain x w1 found2 w2 where
        c: "scrape_topic_listing n E ?u ?p w = Done x w1"
        and s: "subforums_loop n E url ?p ?subs (found @ [link_text tag @ str '' | '' @ ?u]) w1
                = Done found2 w2"
        and r: "forum_rows_loop n E url current_path rows found2 w2 = Done found' w'"
        by (auto simp: Let_def split: outcome.splits)
      let ?new = "[(link_text tag @ str '' | '' @ ?u, ?u, ?p)]
          @ map (\<lambda>sub. (str ''  - '' @ link_text sub @ str '' | ''
                            @ resolve_url E url (link_href sub),
                          resolve_url E url (link_href sub),
                          os_path_join ?p (sanitize_filename (link_text sub))))
              (filter (\<lambda>sub. link_text sub \<noteq> []) ?subs)"
      from subforums_loop_plan[OF s] scrape_topic_listing_crawls[OF c] Cons.prems(2,3)
      have f2: "found2 = map fst (plan @ ?new)" and c2: "crawls w2 = c0 @ map snd (plan @ ?new)"
        by (simp_all add: comp_def)
      from Cons.IH[OF r f2 c2] False dup Some show ?thesis
        by (simp add: Let_def)
    qed
  qed
qed

text \<open>
  C6, as amended. When the index page is fetched and \<open>scrape_forum_index\<close> returns, the
  entries it returns and the crawls it has made are those of \<open>forum_plan\<close>, one crawl for
  each entry and in the same order. So a top-level forum link whose resolved URL occurs in
  an entry recorded before is skipped, with the sub-forum links of its row: nothing is
  recorded or crawled for them. Every other top-level forum link is recorded and crawled,
  and after it each sub-forum link of its row that has a name; the sub-forum links are
  not compared with the recorded entries, and those without a name are skipped.
\<close>

theorem scrape_forum_index_plan:
  assumes "make_soup E url w = (Some page, w1)"
    and "scrape_forum_index n E url current_path w = Done found w'"
  shows "found = map fst (forum_plan E url current_path (concat (category_tables page)) [])
         \<and> crawls w' = crawls w
               @ map snd (forum_plan E url current_path (concat (category_tables page)) [])"
proof -
  from assms have "forum_rows_loop n E url current_path (concat (category_tables page)) [] w1
      = Done found w'"
    by (simp add: scrape_forum_index_def)
  from forum_rows_loop_plan[OF this, of "[]" "crawls w"] make_soup_keeps[OF assms(1)]
  show ?thesis by simp
qed


lemmas index_defs = scrape_forum_index_def scrape_topic_listing_def write_to_file_def
  os_path_join_def sanitize_filename_def sub_invalid_def invalid_chars_def underscore_def
  space_or_underscore_def strip_def isspace_def index_page_def blank_page_def Let_def

theorem scrape_forum_index_plan_witness:
  "make_soup scripted (str ''http://x/'') (start [Ok index_page] [])
     = (Some index_page,
        \<lparr>net = [], fs = [], trace = [Sleep 2, Get (str ''http://x/'')], crawls = []\<rparr>)
   \<and> scrape_forum_index (Suc 0) scripted (str ''http://x/'') (str ''forums'')
         (start [Ok index_page] [])
     = Done [str ''A | http://x/f=1'', str ''  - B | http://x/f=1'']
         \<lparr>net = [],
          fs = [(str ''forums/A/listing.txt'', []), (str ''forums/A/B/listing.txt'', [])],
          trace = [Sleep 2, Get (str ''http://x/''),
                   Sleep 2, Get (str ''http://x/f=1''), Sleep 5,
                   Sleep 2, Get (str ''http://x/f=1''), Sleep 10,
                   Sleep 2, Get (str ''http://x/f=1''),
                   Sleep 2, Get (str ''http://x/f=1''), Sleep 5,
                   Sleep 2, Get (str ''http://x/f=1''), Sleep 10,
                   Sleep 2, Get (str ''http://x/f=1'')],
          crawls = [(str ''http://x/f=1'', str ''forums/A''),
                    (str ''http://x/f=1'', str ''forums/A/B'')]\<rparr>
   \<and> forum_plan scripted (str ''http://x/'') (str ''forums'')
         (concat (category_tables index_page)) []
     = [(str ''A | http://x/f=1'', str ''http://x/f=1'', str ''forums/A''),
        (str ''  - B | http://x/f=1'', str ''http://x/f=1'', str ''forums/A/B'')]"
proof -
  let ?w1 = "\<lparr>net = [] :: response list, fs = [] :: (pystr \<times> pystr) list,
      trace = [Sleep 2, Get (str ''http://x/'')], crawls = []\<rparr>"
  let ?w' = "\<lparr>net = [] :: response list,
          fs = [(str ''forums/A/listing.txt'', []), (str ''forums/A/B/listing.txt'', [])],
          trace = [Sleep 2, Get (str ''http://x/''),
                   Sleep 2, Get (str ''http://x/f=1''), Sleep 5,
                   Sleep 2, Get (str ''http://x/f=1''), Sleep 10,
                   Sleep 2, Get (str ''http://x/f=1''),
                   Sleep 2, Get (str ''http://x/f=1''), Sleep 5,
                   Sleep 2, Get (str ''http://x/f=1''), Sleep 10,
                   Sleep 2, Get (str ''http://x/f=1'')],
          crawls = [(str ''http://x/f=1'', str ''forums/A''),
                    (str ''http://x/f=1'', str ''forums/A/B'')]\<rparr>"
  have a: "make_soup scripted (str ''http://x/'') (start [Ok index_page] [])
     = (Some index_page, ?w1)"
    by (simp add: run_defs)
  have b: "scrape_forum_index (Suc 0) scripted (str ''http://x/'') (str ''forums'')
         (start [Ok index_page] [])
     = Done [str ''A | http://x/f=1'', str ''  - B | http://x/f=1''] ?w'"
    by (simp add: index_defs run_defs)
  from scrape_forum_index_plan[OF a b]
  have c: "[str ''A | http://x/f=1'', str ''  - B | http://x/f=1'']
      = map fst (forum_plan scripted (str ''http://x/'') (str ''forums'')
          (concat (category_tables index_page)) [])"
    by simp
  have d: "forum_plan scripted (str ''http://x/'') (str ''forums'')
         (concat (category_tables index_page)) []
     = [(str ''A | http://x/f=1'', str ''http://x/f=1'', str ''forums/A''),
        (str ''  - B | http://x/f=1'', str ''http://x/f=1'', str ''forums/A/B'')]"
    by (simp add: index_defs resolve_url_def startswith_def str_def scripted_def)
  from a b c d show ?thesis by (simp only: simp_thms)
qed

text \<open>
  C6 as stated fails for sub-forum links. On \<open>index_page\<close> the sub-forum link \<open>B\<close> is
  recorded and crawled although its URL occurs in the entry of \<open>A\<close> recorded just before,
  and the sub-forum link without a name is neither recorded nor crawled although its URL
  occurs in no entry.
\<close>

theorem scrape_forum_index_counterexample:
  "(case scrape_forum_index (Suc 0) scripted (str ''http://x/'') (str ''forums'')
           (start [Ok index_page] []) of
      Done found w' \<Rightarrow>
        found = [str ''A | http://x/f=1'', str ''  - B | http://x/f=1'']
        \<and> crawls w' = [(str ''http://x/f=1'', str ''forums/A''),
                         (str ''http://x/f=1'', str ''forums/A/B'')]
    | Raised e w' \<Rightarrow> False
    | OutOfFuel \<Rightarrow> False)
   \<and> contains (str ''A | http://x/f=1'')
         (resolve_url scripted (str ''http://x/'') (str ''http://x/f=1''))
   \<and> \<not> list_ex (\<lambda>f. contains f (resolve_url scripted (str ''http://x/'') (str ''http://x/f=9'')))
         [str ''A | http://x/f=1'', str ''  - B | http://x/f=1'']"
  by (simp add: index_defs run_defs)

end
